theory Spec2Isabelle
  imports Main "HOL-Library.AList" "HOL-Library.Sublist" "HOL-Library.Word"
begin

section \<open>Strings and the string primitives the plugin calls\<close>

text \<open>
  A JavaScript string is a sequence of UTF-16 code units, and every operation the
  plugin applies to a string works on code units: none of its regular expressions
  has the \<^verbatim>\<open>u\<close> flag. A string is modelled as the list of its code units.
\<close>

type_synonym code_unit = "16 word"

type_synonym js_string = "code_unit list"

text \<open>
  A string literal of the source, all of whose characters are below \<open>0x100\<close>, as
  the list of its code units.
\<close>

fun js :: "string \<Rightarrow> js_string" where
  "js [] = []"
| "js (c # s) = of_char c # js s"

text \<open>
  The line terminators of ECMAScript are LF, CR, LINE SEPARATOR and PARAGRAPH
  SEPARATOR. The dot of a regular expression without the \<^verbatim>\<open>s\<close> flag matches
  every code unit except these four.
\<close>

definition isLineTerminator :: "code_unit \<Rightarrow> bool" where
  "isLineTerminator c = (c = 0x000A \<or> c = 0x000D \<or> c = 0x2028 \<or> c = 0x2029)"

text \<open>
  The class \<^verbatim>\<open>\s\<close> of a regular expression and the characters that
  \<^verbatim>\<open>String.prototype.trim\<close> removes are the same: the white space of ECMAScript
  (TAB, VT, FF, ZERO WIDTH NO-BREAK SPACE and the space separators of Unicode,
  which are SPACE, NO-BREAK SPACE, U+1680, U+2000 to U+200A, U+202F, U+205F and
  U+3000) and the line terminators.
\<close>

definition isWhiteSpace :: "code_unit \<Rightarrow> bool" where
  "isWhiteSpace c =
     (c = 0x0009 \<or> c = 0x000B \<or> c = 0x000C \<or> c = 0xFEFF \<or>
      c = 0x0020 \<or> c = 0x00A0 \<or> c = 0x1680 \<or> (0x2000 \<le> c \<and> c \<le> 0x200A) \<or>
      c = 0x202F \<or> c = 0x205F \<or> c = 0x3000 \<or>
      isLineTerminator c)"

text \<open>\<^verbatim>\<open>s.trim()\<close>: white space is removed at both ends.\<close>

definition trim :: "js_string \<Rightarrow> js_string" where
  "trim s = rev (dropWhile isWhiteSpace (rev (dropWhile isWhiteSpace s)))"

text \<open>
  \<^verbatim>\<open>s.split(/\s+/)\<close>: the pieces between the maximal runs of white space. The
  empty string gives one empty piece; a run at the very start or the very end of
  \<open>s\<close> gives an empty first or last piece.
\<close>

function split_ws :: "js_string \<Rightarrow> js_string list" where
  "split_ws s =
     (if dropWhile (\<lambda>c. \<not> isWhiteSpace c) s = []
      then [takeWhile (\<lambda>c. \<not> isWhiteSpace c) s]
      else takeWhile (\<lambda>c. \<not> isWhiteSpace c) s
             # split_ws (dropWhile isWhiteSpace (dropWhile (\<lambda>c. \<not> isWhiteSpace c) s)))"
  by pat_completeness auto
termination
proof (relation "measure length")
  fix s :: js_string
  assume ne: "dropWhile (\<lambda>c. \<not> isWhiteSpace c) s \<noteq> []"
  let ?r = "dropWhile (\<lambda>c. \<not> isWhiteSpace c) s"
  from ne have "isWhiteSpace (hd ?r)"
    using hd_dropWhile [of "\<lambda>c. \<not> isWhiteSpace c" s] by simp
  with ne have "dropWhile isWhiteSpace ?r = dropWhile isWhiteSpace (tl ?r)"
    by (cases ?r) simp_all
  moreover have "length (dropWhile isWhiteSpace (tl ?r)) \<le> length (tl ?r)"
    by (rule length_dropWhile_le)
  moreover from ne have "length (tl ?r) < length ?r"
    by (cases ?r) simp_all
  moreover have "length ?r \<le> length s"
    by (rule length_dropWhile_le)
  ultimately show "(dropWhile isWhiteSpace ?r, s) \<in> measure length"
    by simp
qed simp

declare split_ws.simps [simp del]

text \<open>
  \<^verbatim>\<open>s.split(",")\<close>, for any one-character separator: the pieces between the
  occurrences of the separator; the empty string gives one empty piece.
\<close>

fun split_char :: "code_unit \<Rightarrow> js_string \<Rightarrow> js_string list" where
  "split_char sep [] = [ [] ]"
| "split_char sep (c # cs) =
     (if c = sep then [] # split_char sep cs
      else (case split_char sep cs of
              [] \<Rightarrow> [ [c] ]
            | t # ts \<Rightarrow> (c # t) # ts))"

text \<open>\<^verbatim>\<open>xs.join(sep)\<close> on an array of strings.\<close>

fun join :: "js_string \<Rightarrow> js_string list \<Rightarrow> js_string" where
  "join sep [] = []"
| "join sep [x] = x"
| "join sep (x # y # ys) = x @ sep @ join sep (y # ys)"

text \<open>\<^verbatim>\<open>s.replace(/_/g, " ")\<close>: every underscore becomes a space.\<close>

definition replace_underscores :: "js_string \<Rightarrow> js_string" where
  "replace_underscores s = map (\<lambda>c. if c = 0x5F then 0x20 else c) s"

text \<open>The template literal that puts a string between two double quotes.\<close>

definition quoted :: "js_string \<Rightarrow> js_string" where
  "quoted s = 0x22 # s @ [0x22]"

text \<open>
  The test \<^verbatim>\<open>value.match(/^var\(.*\)$/)\<close>: the whole string is \<^verbatim>\<open>var(\<close>, then
  any code units that are not line terminators, then a closing parenthesis.
\<close>

definition matches_whole_var :: "js_string \<Rightarrow> bool" where
  "matches_whole_var v =
     (take 4 v = js ''var('' \<and> 5 \<le> length v \<and> last v = 0x29 \<and>
      list_all (\<lambda>c. \<not> isLineTerminator c) (butlast (drop 4 v)))"

text \<open>
  The test \<^verbatim>\<open>trimmed.match(/var\(.*\)/)\<close>: somewhere in the string there is
  \<^verbatim>\<open>var(\<close>, and a closing parenthesis follows it before any line terminator.
\<close>

fun matches_var :: "js_string \<Rightarrow> bool" where
  "matches_var [] = False"
| "matches_var (c # cs) =
     ((take 4 (c # cs) = js ''var('' \<and>
       0x29 \<in> set (takeWhile (\<lambda>c. \<not> isLineTerminator c) (drop 4 (c # cs))))
      \<or> matches_var cs)"

text \<open>
  \<^verbatim>\<open>set.add(x)\<close> on a \<^verbatim>\<open>Set\<close>, which keeps its members in the order of their
  first insertion; the list holds the members in that order.
\<close>

definition Set_add :: "'a list \<Rightarrow> 'a \<Rightarrow> 'a list" where
  "Set_add members x = (if x \<in> set members then members else members @ [x])"

section \<open>The functions of the plugin\<close>

text \<open>
  \<^verbatim>\<open>extractAreaNames\<close>: the outer loop runs over the rows, the inner loop over
  the pieces of the trimmed row; \<^verbatim>\<open>Array.from\<close> lists the set in insertion order.
\<close>

definition add_area :: "js_string list \<Rightarrow> js_string \<Rightarrow> js_string list" where
  "add_area areaNames area =
     (if area \<noteq> js ''.'' \<and> area \<noteq> js ''..'' then Set_add areaNames area else areaNames)"

definition extractAreaNames :: "js_string list \<Rightarrow> js_string list" where
  "extractAreaNames rs =
     foldl (\<lambda>areaNames row. foldl add_area areaNames (split_ws (trim row))) [] rs"

definition formatGridTemplateAreas :: "js_string list \<Rightarrow> js_string" where
  "formatGridTemplateAreas rs = join (js '' '') (map quoted rs)"

record GridTemplateArea =
  rows :: "js_string list"
  gridTemplateRows :: "js_string option"
  gridTemplateColumns :: "js_string option"

text \<open>The union type \<^verbatim>\<open>GridTemplateArea | string[]\<close> of a configured layout.\<close>

datatype area_config = Rows "js_string list" | Area GridTemplateArea

fun normalizeAreaConfig :: "area_config \<Rightarrow> GridTemplateArea" where
  "normalizeAreaConfig (Rows rs) =
     \<lparr>rows = rs, gridTemplateRows = None, gridTemplateColumns = None\<rparr>"
| "normalizeAreaConfig (Area config) = config"

definition process_row :: "js_string \<Rightarrow> js_string" where
  "process_row row =
     (let trimmed = trim (replace_underscores row)
      in if matches_var trimmed then trimmed else quoted trimmed)"

definition parseArbitraryGridAreas :: "js_string \<Rightarrow> js_string" where
  "parseArbitraryGridAreas v =
     (if matches_whole_var v then v
      else join (js '' '') (map process_row (split_char 0x2C v)))"

section \<open>The plugin\<close>

text \<open>
  A \<^verbatim>\<open>CssInJs\<close> object and a \<^verbatim>\<open>Record<string, CssInJs>\<close> are JavaScript
  objects with string keys. An object is modelled by the list of its properties in
  insertion order; the assignment \<^verbatim>\<open>obj[k] = v\<close> is \<^const>\<open>AList.update\<close>, which
  replaces the value of a key that is present, in its place, and appends a new
  key at the end. The plugin only builds flat declaration bodies, whose values
  are strings.
\<close>

type_synonym CssInJs = "(js_string \<times> js_string) list"

type_synonym utilities = "(js_string \<times> CssInJs) list"

definition CSS_KEYWORDS :: "js_string list" where
  "CSS_KEYWORDS = [js ''none'', js ''inherit'', js ''initial'', js ''revert'', js ''revert-layer'', js ''unset'']"

definition GRID_AREA_KEYWORDS :: "js_string list" where
  "GRID_AREA_KEYWORDS = js ''auto'' # CSS_KEYWORDS"

text \<open>
  The body of the loop over \<^verbatim>\<open>Object.entries(gridTemplateAreas)\<close>. The tests
  \<^verbatim>\<open>if (gridTemplateRows)\<close> and \<^verbatim>\<open>if (gridTemplateColumns)\<close> are truthiness
  tests: they fail for \<^verbatim>\<open>undefined\<close> and for the empty string.
\<close>

definition layout_styles :: "GridTemplateArea \<Rightarrow> CssInJs" where
  "layout_styles normalizedConfig =
     (let styles = [(js ''display'', js ''grid''),
                    (js ''grid-template-areas'', formatGridTemplateAreas (rows normalizedConfig))];
          styles = (case gridTemplateRows normalizedConfig of
                      None \<Rightarrow> styles
                    | Some v \<Rightarrow> if v \<noteq> [] then AList.update (js ''grid-template-rows'') v styles
                               else styles);
          styles = (case gridTemplateColumns normalizedConfig of
                      None \<Rightarrow> styles
                    | Some v \<Rightarrow> if v \<noteq> [] then AList.update (js ''grid-template-columns'') v styles
                               else styles)
      in styles)"

text \<open>
  The state of that loop is the set \<^verbatim>\<open>allAreaNames\<close> and the object
  \<^verbatim>\<open>gridAreasUtilities\<close>; an entry is a layout name with its configuration.
\<close>

definition layout_step ::
  "js_string list \<times> utilities \<Rightarrow> js_string \<times> area_config \<Rightarrow> js_string list \<times> utilities" where
  "layout_step st entry =
     (let normalizedConfig = normalizeAreaConfig (snd entry);
          areaNames = extractAreaNames (rows normalizedConfig)
      in (foldl Set_add (fst st) areaNames,
          AList.update (js ''.grid-areas-'' @ fst entry) (layout_styles normalizedConfig) (snd st)))"

definition layout_loop :: "(js_string \<times> area_config) list \<Rightarrow> js_string list \<times> utilities" where
  "layout_loop entries = foldl layout_step ([], []) entries"

definition allAreaNames :: "(js_string \<times> area_config) list \<Rightarrow> js_string list" where
  "allAreaNames entries = fst (layout_loop entries)"

definition gridAreasUtilities :: "(js_string \<times> area_config) list \<Rightarrow> utilities" where
  "gridAreasUtilities entries =
     foldl (\<lambda>u keyword.
              AList.update (js ''.grid-areas-'' @ keyword)
                [(js ''display'', js ''grid''), (js ''grid-template-areas'', keyword)] u)
       (snd (layout_loop entries)) CSS_KEYWORDS"

definition gridAreaUtilities :: "(js_string \<times> area_config) list \<Rightarrow> utilities" where
  "gridAreaUtilities entries =
     foldl (\<lambda>u keyword. AList.update (js ''.grid-area-'' @ keyword) [(js ''grid-area'', keyword)] u)
       (foldl (\<lambda>u areaName.
                 AList.update (js ''.grid-area-'' @ areaName) [(js ''grid-area'', areaName)] u)
          [] (allAreaNames entries))
       GRID_AREA_KEYWORDS"

definition line_step :: "utilities \<Rightarrow> js_string \<Rightarrow> utilities" where
  "line_step u areaName =
     (let u = AList.update (js ''.row-start-'' @ areaName)
                [(js ''grid-row-start'', areaName @ js ''-start'')] u;
          u = AList.update (js ''.row-end-'' @ areaName)
                [(js ''grid-row-end'', areaName @ js ''-end'')] u;
          u = AList.update (js ''.row-span-'' @ areaName)
                [(js ''grid-row'', areaName @ js ''-start / '' @ areaName @ js ''-end'')] u;
          u = AList.update (js ''.col-start-'' @ areaName)
                [(js ''grid-column-start'', areaName @ js ''-start'')] u;
          u = AList.update (js ''.col-end-'' @ areaName)
                [(js ''grid-column-end'', areaName @ js ''-end'')] u;
          u = AList.update (js ''.col-span-'' @ areaName)
                [(js ''grid-column'', areaName @ js ''-start / '' @ areaName @ js ''-end'')] u
      in u)"

definition lineUtilities :: "(js_string \<times> area_config) list \<Rightarrow> utilities" where
  "lineUtilities entries = foldl line_step [] (allAreaNames entries)"

text \<open>
  The six declarations that one pass of the loop above assigns for one area name,
  in the order of the assignments.
\<close>

definition line_declarations :: "js_string \<Rightarrow> utilities" where
  "line_declarations areaName =
     [(js ''.row-start-'' @ areaName, [(js ''grid-row-start'', areaName @ js ''-start'')]),
      (js ''.row-end-'' @ areaName, [(js ''grid-row-end'', areaName @ js ''-end'')]),
      (js ''.row-span-'' @ areaName, [(js ''grid-row'', areaName @ js ''-start / '' @ areaName @ js ''-end'')]),
      (js ''.col-start-'' @ areaName, [(js ''grid-column-start'', areaName @ js ''-start'')]),
      (js ''.col-end-'' @ areaName, [(js ''grid-column-end'', areaName @ js ''-end'')]),
      (js ''.col-span-'' @ areaName, [(js ''grid-column'', areaName @ js ''-start / '' @ areaName @ js ''-end'')])]"

text \<open>The resolvers handed to \<^verbatim>\<open>matchUtilities\<close>, in the order of the four calls.\<close>

definition match_grid_areas :: "(js_string \<times> (js_string \<Rightarrow> CssInJs)) list" where
  "match_grid_areas =
     [(js ''grid-areas'', \<lambda>v. [(js ''display'', js ''grid''),
                             (js ''grid-template-areas'', parseArbitraryGridAreas v)])]"

definition match_grid_area :: "(js_string \<times> (js_string \<Rightarrow> CssInJs)) list" where
  "match_grid_area = [(js ''grid-area'', \<lambda>v. [(js ''grid-area'', replace_underscores v)])]"

definition match_row :: "(js_string \<times> (js_string \<Rightarrow> CssInJs)) list" where
  "match_row = [(js ''row-start'', \<lambda>v. [(js ''grid-row-start'', v)]),
                (js ''row-end'', \<lambda>v. [(js ''grid-row-end'', v)])]"

definition match_col :: "(js_string \<times> (js_string \<Rightarrow> CssInJs)) list" where
  "match_col = [(js ''col-start'', \<lambda>v. [(js ''grid-column-start'', v)]),
                (js ''col-end'', \<lambda>v. [(js ''grid-column-end'', v)])]"

text \<open>
  What the plugin hands to the host: the arguments of its three calls of
  \<^verbatim>\<open>addUtilities\<close> and of its four calls of \<^verbatim>\<open>matchUtilities\<close>, in order.
\<close>

record registration =
  addUtilities_calls :: "utilities list"
  matchUtilities_calls :: "(js_string \<times> (js_string \<Rightarrow> CssInJs)) list list"

text \<open>
  The source has no \<^verbatim>\<open>throw\<close> statement, and every operation it applies to a
  configuration of the declared type is total, so the plugin function has one
  outcome, the normal return. The sum type makes that outcome explicit; the
  failure condition \<open>MalformedLayout\<close> that the specification names is the only
  inhabitant of the error type, and no branch of the plugin produces it.
\<close>

datatype error = MalformedLayout

definition gridAreasPlugin :: "(js_string \<times> area_config) list \<Rightarrow> error + registration" where
  "gridAreasPlugin entries =
     Inr \<lparr>addUtilities_calls =
            [gridAreasUtilities entries, gridAreaUtilities entries, lineUtilities entries],
          matchUtilities_calls = [match_grid_areas, match_grid_area, match_row, match_col]\<rparr>"

section \<open>The rendering and the decoding that the specification describes\<close>

text \<open>
  The specification describes the static path as splitting every row on runs of
  white space into cell tokens, leading and trailing white space ignored, and
  joining the tokens again with single spaces. These definitions follow its
  words; they are compared with \<^const>\<open>formatGridTemplateAreas\<close>, which follows the
  source.
\<close>

definition spec_cell_tokens :: "js_string \<Rightarrow> js_string list" where
  "spec_cell_tokens row = filter (\<lambda>t. t \<noteq> []) (split_ws row)"

definition spec_normalize_row :: "js_string \<Rightarrow> js_string" where
  "spec_normalize_row row = join (js '' '') (spec_cell_tokens row)"

definition spec_format_rows :: "js_string list \<Rightarrow> js_string" where
  "spec_format_rows rs = join (js '' '') (map (\<lambda>row. quoted (spec_normalize_row row)) rs)"

text \<open>
  The decoding of the specification's round trip: the output is split at every
  double quote that a space follows, and the double quotes are stripped from the
  pieces.
\<close>

fun cons_head :: "code_unit \<Rightarrow> js_string list \<Rightarrow> js_string list" where
  "cons_head c [] = [ [c] ]"
| "cons_head c (t # ts) = (c # t) # ts"

fun spec_split_quote_space :: "js_string \<Rightarrow> js_string list" where
  "spec_split_quote_space [] = [ [] ]"
| "spec_split_quote_space [c] = [ [c] ]"
| "spec_split_quote_space (c # d # cs) =
     (if c = 0x22 \<and> d = 0x20 then [] # spec_split_quote_space cs
      else cons_head c (spec_split_quote_space (d # cs)))"

definition spec_decode_rows :: "js_string \<Rightarrow> js_string list" where
  "spec_decode_rows out = map (filter (\<lambda>c. c \<noteq> 0x22)) (spec_split_quote_space out)"

section \<open>Facts about the string primitives\<close>

lemma matches_whole_var_iff:
  "matches_whole_var v \<longleftrightarrow> (\<exists>x. v = js ''var('' @ x @ js '')'' \<and> (\<forall>c\<in>set x. \<not> isLineTerminator c))"
proof
  assume m: "matches_whole_var v"
  then have t: "take 4 v = js ''var(''" and l: "5 \<le> length v" and e: "last v = 0x29"
    and a: "list_all (\<lambda>c. \<not> isLineTerminator c) (butlast (drop 4 v))"
    by (simp_all add: matches_whole_var_def)
  from l have ne: "drop 4 v \<noteq> []" by simp
  from ne have "butlast (drop 4 v) @ [last (drop 4 v)] = drop 4 v"
    by (rule append_butlast_last_id)
  moreover from ne have "last (drop 4 v) = last v" by simp
  ultimately have "drop 4 v = butlast (drop 4 v) @ js '')''" using e by simp
  then have "take 4 v @ drop 4 v = js ''var('' @ butlast (drop 4 v) @ js '')''"
    using t by simp
  then have "v = js ''var('' @ butlast (drop 4 v) @ js '')''" by simp
  with a show "\<exists>x. v = js ''var('' @ x @ js '')'' \<and> (\<forall>c\<in>set x. \<not> isLineTerminator c)"
    by (auto simp: list_all_iff)
next
  assume "\<exists>x. v = js ''var('' @ x @ js '')'' \<and> (\<forall>c\<in>set x. \<not> isLineTerminator c)"
  then show "matches_whole_var v"
    by (auto simp: matches_whole_var_def list_all_iff butlast_append)
qed


lemma split_char_not_Nil: "split_char sep s \<noteq> []"
  by (induction s) (auto split: list.splits)




lemma split_char_pieces: "r \<in> set (split_char sep s) \<Longrightarrow> sep \<notin> set r"
  by (induction s arbitrary: r) (auto split: if_splits list.splits)

lemma join_split_char: "join [sep] (split_char sep s) = s"
proof (induction s)
  case Nil
  show ?case by simp
next
  case (Cons c s)
  obtain t ts where ts: "split_char sep s = t # ts"
    using split_char_not_Nil [of sep s] by (cases "split_char sep s") auto
  show ?case
  proof (cases "c = sep")
    case True
    with Cons ts show ?thesis by simp
  next
    case False
    with Cons ts show ?thesis by (cases ts) auto
  qed
qed

lemma comma_rows_exist:
  "\<exists>rs. rs \<noteq> [] \<and> (\<forall>r\<in>set rs. 0x2C \<notin> set r) \<and> v = join (js '','') rs"
proof (intro exI conjI)
  show "split_char 0x2C v \<noteq> []" by (rule split_char_not_Nil)
  show "\<forall>r\<in>set (split_char 0x2C v). 0x2C \<notin> set r"
    by (auto dest: split_char_pieces)
  show "v = join (js '','') (split_char 0x2C v)"
    using join_split_char [of "0x2C" v] by simp
qed

lemma join_Cons: "join sep (x # xs) = x @ (if xs = [] then [] else sep @ join sep xs)"
  by (cases xs) simp_all

lemma split_ws_Nil: "split_ws [] = [ [] ]"
  by (simp add: split_ws.simps)

lemma split_ws_last:
  "dropWhile (\<lambda>c. \<not> isWhiteSpace c) s = [] \<Longrightarrow>
   split_ws s = [takeWhile (\<lambda>c. \<not> isWhiteSpace c) s]"
  by (subst split_ws.simps) (simp del: dropWhile_eq_Nil_conv)

lemma split_ws_more:
  "dropWhile (\<lambda>c. \<not> isWhiteSpace c) s \<noteq> [] \<Longrightarrow>
   split_ws s = takeWhile (\<lambda>c. \<not> isWhiteSpace c) s
                  # split_ws (dropWhile isWhiteSpace (dropWhile (\<lambda>c. \<not> isWhiteSpace c) s))"
  by (subst split_ws.simps) (simp del: dropWhile_eq_Nil_conv)

lemma split_ws_pieces:
  "t \<in> set (split_ws s) \<Longrightarrow> c \<in> set t \<Longrightarrow> \<not> isWhiteSpace c"
proof (induction s arbitrary: t rule: split_ws.induct)
  case (1 s)
  let ?rest = "dropWhile (\<lambda>c. \<not> isWhiteSpace c) s"
  from "1.prems"(1) consider
      (first) "t = takeWhile (\<lambda>c. \<not> isWhiteSpace c) s"
    | (later) "?rest \<noteq> []" "t \<in> set (split_ws (dropWhile isWhiteSpace ?rest))"
    by (subst (asm) split_ws.simps) (auto split: if_splits)
  then show ?case
  proof cases
    case first
    with "1.prems"(2) show ?thesis by (auto dest: set_takeWhileD)
  next
    case later
    with "1.IH" "1.prems"(2) show ?thesis by blast
  qed
qed

lemma dropWhile_snoc_all:
  assumes "P w" and "dropWhile P r = []"
  shows "dropWhile P (r @ [w]) = []"
proof -
  from assms(2) have "\<forall>c\<in>set r. P c" by (simp only: dropWhile_eq_Nil_conv)
  with assms(1) have "\<forall>c\<in>set (r @ [w]). P c" by auto
  then show ?thesis by (simp only: dropWhile_eq_Nil_conv)
qed

lemma dropWhile_snoc_some:
  assumes "dropWhile P r \<noteq> []"
  shows "dropWhile P (r @ ys) = dropWhile P r @ ys"
proof -
  from assms have "\<not> (\<forall>c\<in>set r. P c)" by (simp only: dropWhile_eq_Nil_conv not_False_eq_True)
  then obtain d where "d \<in> set r" "\<not> P d" by blast
  then show ?thesis by (rule dropWhile_append1)
qed

lemma takeWhile_snoc_some:
  assumes "dropWhile P r \<noteq> []"
  shows "takeWhile P (r @ ys) = takeWhile P r"
proof -
  from assms have "\<not> (\<forall>c\<in>set r. P c)" by (simp only: dropWhile_eq_Nil_conv not_False_eq_True)
  then obtain d where "d \<in> set r" "\<not> P d" by blast
  then show ?thesis by (rule takeWhile_append1)
qed

lemma split_ws_leading:
  "filter (\<lambda>t. t \<noteq> []) (split_ws (dropWhile isWhiteSpace s)) =
   filter (\<lambda>t. t \<noteq> []) (split_ws s)"
proof (cases s)
  case Nil
  then show ?thesis by simp
next
  case (Cons c cs)
  show ?thesis
  proof (cases "isWhiteSpace c")
    case True
    with Cons have "dropWhile (\<lambda>c. \<not> isWhiteSpace c) s = s" "takeWhile (\<lambda>c. \<not> isWhiteSpace c) s = []"
      by simp_all
    with Cons have "split_ws s = [] # split_ws (dropWhile isWhiteSpace s)"
      using split_ws_more [of s] by simp
    then show ?thesis by simp
  next
    case False
    with Cons show ?thesis by simp
  qed
qed

lemma split_ws_trailing:
  "isWhiteSpace w \<Longrightarrow>
   filter (\<lambda>t. t \<noteq> []) (split_ws (s @ [w])) = filter (\<lambda>t. t \<noteq> []) (split_ws s)"
proof (induction s rule: split_ws.induct)
  case (1 s)
  let ?P = "\<lambda>c. \<not> isWhiteSpace c"
  let ?t = "takeWhile ?P s" and ?r = "dropWhile ?P s"
  show ?case
  proof (cases "?r = []")
    case True
    then have all: "\<forall>c\<in>set s. ?P c" by (simp only: dropWhile_eq_Nil_conv)
    with "1.prems" have tw: "takeWhile ?P (s @ [w]) = s" and dw: "dropWhile ?P (s @ [w]) = [w]"
      by (simp_all add: takeWhile_append2 dropWhile_append2)
    have "dropWhile ?P (s @ [w]) \<noteq> []" unfolding dw by simp
    then have "split_ws (s @ [w]) =
        takeWhile ?P (s @ [w]) # split_ws (dropWhile isWhiteSpace (dropWhile ?P (s @ [w])))"
      by (rule split_ws_more)
    with tw dw "1.prems" have "split_ws (s @ [w]) = [s, [] ]"
      by (simp add: split_ws_Nil)
    moreover from all have "?t = s" by (simp add: takeWhile_eq_all_conv)
    with True have "split_ws s = [s]" using split_ws_last [of s] by (simp only:)
    ultimately show ?thesis by simp
  next
    case False
    then have tw: "takeWhile ?P (s @ [w]) = ?t" by (rule takeWhile_snoc_some)
    from False have dw: "dropWhile ?P (s @ [w]) = ?r @ [w]" by (rule dropWhile_snoc_some)
    from False have ss: "split_ws s = ?t # split_ws (dropWhile isWhiteSpace ?r)"
      by (rule split_ws_more)
    have "dropWhile ?P (s @ [w]) \<noteq> []" unfolding dw by simp
    then have "split_ws (s @ [w]) =
        takeWhile ?P (s @ [w]) # split_ws (dropWhile isWhiteSpace (dropWhile ?P (s @ [w])))"
      by (rule split_ws_more)
    then have sw: "split_ws (s @ [w]) = ?t # split_ws (dropWhile isWhiteSpace (?r @ [w]))"
      by (simp only: tw dw)
    show ?thesis
    proof (cases "dropWhile isWhiteSpace ?r = []")
      case True
      with "1.prems" have "dropWhile isWhiteSpace (?r @ [w]) = []"
        by (rule dropWhile_snoc_all)
      with sw have "split_ws (s @ [w]) = ?t # split_ws []" by (simp only:)
      moreover from ss True have "split_ws s = ?t # split_ws []" by (simp only:)
      ultimately show ?thesis by (simp only:)
    next
      case nonblank: False
      then have "dropWhile isWhiteSpace (?r @ [w]) = dropWhile isWhiteSpace ?r @ [w]"
        by (rule dropWhile_snoc_some)
      with sw have "split_ws (s @ [w]) = ?t # split_ws (dropWhile isWhiteSpace ?r @ [w])"
        by (simp only:)
      moreover have "filter (\<lambda>t. t \<noteq> []) (split_ws (dropWhile isWhiteSpace ?r @ [w])) =
          filter (\<lambda>t. t \<noteq> []) (split_ws (dropWhile isWhiteSpace ?r))"
        using False "1.prems" by (rule "1.IH")
      ultimately show ?thesis by (simp only: ss filter.simps)
    qed
  qed
qed

lemma split_ws_strip_end:
  "filter (\<lambda>t. t \<noteq> []) (split_ws (rev (dropWhile isWhiteSpace (rev s)))) =
   filter (\<lambda>t. t \<noteq> []) (split_ws s)"
proof (induction s rule: rev_induct)
  case Nil
  show ?case by simp
next
  case (snoc w s)
  then show ?case by (cases "isWhiteSpace w") (simp_all add: split_ws_trailing)
qed

lemma cell_tokens_trim: "filter (\<lambda>t. t \<noteq> []) (split_ws (trim s)) = spec_cell_tokens s"
  by (simp add: trim_def spec_cell_tokens_def split_ws_strip_end split_ws_leading)

lemma trim_blank:
  assumes "\<forall>c\<in>set row. isWhiteSpace c"
  shows "trim row = []"
proof -
  from assms have "dropWhile isWhiteSpace row = []"
    by (simp only: dropWhile_eq_Nil_conv)
  then show ?thesis by (simp add: trim_def del: dropWhile_eq_Nil_conv)
qed

lemma last_dropWhile:
  assumes "dropWhile P xs \<noteq> []"
  shows "last (dropWhile P xs) = last xs"
proof -
  have "xs = takeWhile P xs @ dropWhile P xs" by simp
  then have "last xs = last (takeWhile P xs @ dropWhile P xs)" by simp
  also from assms have "\<dots> = last (dropWhile P xs)" by (rule last_appendR)
  finally show ?thesis by simp
qed

lemma trim_decomp:
  "\<exists>pre post. s = pre @ trim s @ post
     \<and> (\<forall>c\<in>set pre. isWhiteSpace c) \<and> (\<forall>c\<in>set post. isWhiteSpace c)"
proof -
  let ?a = "dropWhile isWhiteSpace s"
  let ?b = "dropWhile isWhiteSpace (rev ?a)"
  have "rev (rev ?b @ rev (takeWhile isWhiteSpace (rev ?a))) = rev ?a"
    by (simp only: rev_append rev_rev_ident takeWhile_dropWhile_id)
  then have a: "rev ?b @ rev (takeWhile isWhiteSpace (rev ?a)) = ?a"
    by (simp only: rev_is_rev_conv)
  have "s = takeWhile isWhiteSpace s @ ?a" by simp
  with a have "s = takeWhile isWhiteSpace s @ trim s @ rev (takeWhile isWhiteSpace (rev ?a))"
    by (simp only: trim_def)
  moreover have "\<forall>c\<in>set (takeWhile isWhiteSpace s). isWhiteSpace c"
    by (auto dest: set_takeWhileD)
  moreover have "\<forall>c\<in>set (rev (takeWhile isWhiteSpace (rev ?a))). isWhiteSpace c"
    by (auto dest: set_takeWhileD)
  ultimately show ?thesis by blast
qed

lemma trim_ends:
  assumes "trim s \<noteq> []"
  shows "\<not> isWhiteSpace (hd (trim s))" and "\<not> isWhiteSpace (last (trim s))"
proof -
  let ?a = "dropWhile isWhiteSpace s"
  let ?b = "dropWhile isWhiteSpace (rev ?a)"
  from assms have b: "?b \<noteq> []" by (simp add: trim_def del: dropWhile_eq_Nil_conv)
  then have "\<not> isWhiteSpace (hd ?b)" by (rule hd_dropWhile)
  with b show "\<not> isWhiteSpace (last (trim s))" by (simp add: trim_def last_rev del: dropWhile_eq_Nil_conv)
  from b have "last ?b = last (rev ?a)" by (rule last_dropWhile)
  moreover from b have a: "?a \<noteq> []" by (auto simp del: dropWhile_eq_Nil_conv)
  then have "last (rev ?a) = hd ?a" by (simp add: last_rev del: dropWhile_eq_Nil_conv)
  moreover from a have "\<not> isWhiteSpace (hd ?a)" by (rule hd_dropWhile)
  ultimately have "\<not> isWhiteSpace (last ?b)" by simp
  with b show "\<not> isWhiteSpace (hd (trim s))" by (simp add: trim_def hd_rev del: dropWhile_eq_Nil_conv)
qed


lemma split_ws_first: "takeWhile (\<lambda>c. \<not> isWhiteSpace c) s \<in> set (split_ws s)"
proof (cases "dropWhile (\<lambda>c. \<not> isWhiteSpace c) s = []")
  case True
  then have "split_ws s = [takeWhile (\<lambda>c. \<not> isWhiteSpace c) s]" by (rule split_ws_last)
  then show ?thesis by simp
next
  case False
  then have "split_ws s = takeWhile (\<lambda>c. \<not> isWhiteSpace c) s
      # split_ws (dropWhile isWhiteSpace (dropWhile (\<lambda>c. \<not> isWhiteSpace c) s))"
    by (rule split_ws_more)
  then show ?thesis by simp
qed

lemma split_ws_token_run:
  assumes "t \<in> set (split_ws s)"
  shows "\<exists>pre post. s = pre @ t @ post
           \<and> (pre = [] \<or> isWhiteSpace (last pre)) \<and> (post = [] \<or> isWhiteSpace (hd post))"
  using assms
proof (induction s rule: split_ws.induct)
  case (1 s)
  let ?P = "\<lambda>c. \<not> isWhiteSpace c"
  let ?t0 = "takeWhile ?P s" and ?r = "dropWhile ?P s"
  have here: "\<exists>pre post. s = pre @ ?t0 @ post
           \<and> (pre = [] \<or> isWhiteSpace (last pre)) \<and> (post = [] \<or> isWhiteSpace (hd post))"
  proof (intro exI conjI)
    show "s = [] @ ?t0 @ ?r" by simp
    show "[] = [] \<or> isWhiteSpace (last [])" by simp
    show "?r = [] \<or> isWhiteSpace (hd ?r)"
      using hd_dropWhile [of ?P s] by blast
  qed
  show ?case
  proof (cases "?r = []")
    case True
    then have "split_ws s = [?t0]" by (rule split_ws_last)
    with "1.prems" have "t = ?t0" by simp
    with here show ?thesis by simp
  next
    case False
    then have "split_ws s = ?t0 # split_ws (dropWhile isWhiteSpace ?r)" by (rule split_ws_more)
    with "1.prems" consider "t = ?t0" | "t \<in> set (split_ws (dropWhile isWhiteSpace ?r))"
      by auto
    then show ?thesis
    proof cases
      case 1
      with here show ?thesis by simp
    next
      case 2
      with "1.IH" [OF False] obtain pre post where
        d: "dropWhile isWhiteSpace ?r = pre @ t @ post"
        and p: "pre = [] \<or> isWhiteSpace (last pre)"
        and q: "post = [] \<or> isWhiteSpace (hd post)"
        by blast
      let ?w = "takeWhile isWhiteSpace ?r"
      from False have "isWhiteSpace (hd ?r)" using hd_dropWhile [of ?P s] by blast
      with False have w: "?w \<noteq> []" by (cases ?r) simp_all
      then have "last ?w \<in> set ?w" by simp
      then have lw: "isWhiteSpace (last ?w)" by (auto dest: set_takeWhileD)
      have "s = ?t0 @ ?r" by simp
      also have "?r = ?w @ dropWhile isWhiteSpace ?r" by simp
      finally have "s = (?t0 @ ?w @ pre) @ t @ post" using d by simp
      moreover from w p lw have "isWhiteSpace (last (?t0 @ ?w @ pre))"
        by (cases "pre = []") simp_all
      ultimately show ?thesis using q by blast
    qed
  qed
qed

lemma split_ws_run_token:
  assumes "s = pre @ t @ post" and "t \<noteq> []" and "\<forall>c\<in>set t. \<not> isWhiteSpace c"
    and "pre = [] \<or> isWhiteSpace (last pre)" and "post = [] \<or> isWhiteSpace (hd post)"
  shows "t \<in> set (split_ws s)"
  using assms(1,4)
proof (induction s arbitrary: pre rule: split_ws.induct)
  case (1 s)
  let ?P = "\<lambda>c. \<not> isWhiteSpace c"
  let ?r = "dropWhile ?P s"
  from assms(2,3) have ht: "\<not> isWhiteSpace (hd t)" by (cases t) simp_all
  show ?case
  proof (cases "pre = []")
    case True
    from assms(5) have "takeWhile ?P post = []" by (cases post) auto
    with assms(3) have "takeWhile ?P (t @ post) = t" by (simp add: takeWhile_append2)
    with True "1.prems"(1) have "takeWhile ?P s = t" by simp
    with split_ws_first [of s] show ?thesis by simp
  next
    case False
    with "1.prems"(2) have lp: "isWhiteSpace (last pre)" by simp
    from False have "last pre \<in> set pre" by simp
    with lp have ex: "\<exists>c\<in>set pre. \<not> ?P c" by blast
    then have p1: "dropWhile ?P pre \<noteq> []" by simp
    from ex obtain c where "c \<in> set pre" "\<not> ?P c" by blast
    then have "dropWhile ?P (pre @ t @ post) = dropWhile ?P pre @ t @ post"
      by (rule dropWhile_append1)
    with "1.prems"(1) have r: "?r = dropWhile ?P pre @ t @ post" by simp
    with p1 have rne: "?r \<noteq> []" by simp
    let ?pre1 = "dropWhile ?P pre"
    from p1 have l1: "last ?pre1 = last pre" by (rule last_dropWhile)
    have "\<exists>pre2. dropWhile isWhiteSpace ?r = pre2 @ t @ post
              \<and> (pre2 = [] \<or> isWhiteSpace (last pre2))"
    proof (cases "dropWhile isWhiteSpace ?pre1 = []")
      case True
      then have "\<forall>c\<in>set ?pre1. isWhiteSpace c" by (simp only: dropWhile_eq_Nil_conv)
      then have "\<And>c. c \<in> set ?pre1 \<Longrightarrow> isWhiteSpace c" by blast
      then have "dropWhile isWhiteSpace (?pre1 @ t @ post) = dropWhile isWhiteSpace (t @ post)"
        by (rule dropWhile_append2)
      moreover from assms(2) ht have "dropWhile isWhiteSpace (t @ post) = t @ post"
        by (cases t) simp_all
      ultimately have "dropWhile isWhiteSpace ?r = [] @ t @ post"
        by (simp only: r append_Nil)
      then show ?thesis by blast
    next
      case False
      then have "dropWhile isWhiteSpace (?pre1 @ t @ post) =
          dropWhile isWhiteSpace ?pre1 @ t @ post"
        by (rule dropWhile_snoc_some)
      then have "dropWhile isWhiteSpace ?r = dropWhile isWhiteSpace ?pre1 @ t @ post"
        by (simp only: r)
      moreover from False have "last (dropWhile isWhiteSpace ?pre1) = last ?pre1"
        by (rule last_dropWhile)
      with l1 lp have "isWhiteSpace (last (dropWhile isWhiteSpace ?pre1))" by (simp only:)
      ultimately show ?thesis by blast
    qed
    then obtain pre2 where "dropWhile isWhiteSpace ?r = pre2 @ t @ post"
      and "pre2 = [] \<or> isWhiteSpace (last pre2)"
      by blast
    with rne have "t \<in> set (split_ws (dropWhile isWhiteSpace ?r))"
      by (rule "1.IH")
    moreover from rne have "split_ws s =
        takeWhile ?P s # split_ws (dropWhile isWhiteSpace ?r)"
      by (rule split_ws_more)
    ultimately show ?thesis by simp
  qed
qed

lemma split_ws_no_empty_piece:
  assumes "s \<noteq> []" and "\<not> isWhiteSpace (hd s)" and "\<not> isWhiteSpace (last s)"
  shows "[] \<notin> set (split_ws s)"
  using assms
proof (induction s rule: split_ws.induct)
  case (1 s)
  let ?P = "\<lambda>c. \<not> isWhiteSpace c"
  let ?r = "dropWhile ?P s"
  from "1.prems"(1,2) have t0: "takeWhile ?P s \<noteq> []" by (cases s) simp_all
  show ?case
  proof (cases "?r = []")
    case True
    then have "split_ws s = [takeWhile ?P s]" by (rule split_ws_last)
    with t0 show ?thesis by simp
  next
    case False
    then have lr: "last ?r = last s" by (rule last_dropWhile)
    let ?s' = "dropWhile isWhiteSpace ?r"
    from False have "last ?r \<in> set ?r" by simp
    with lr "1.prems"(3) have "\<exists>c\<in>set ?r. \<not> isWhiteSpace c" by auto
    then have ne: "?s' \<noteq> []" by simp
    then have "\<not> isWhiteSpace (hd ?s')" by (rule hd_dropWhile)
    moreover from ne have "last ?s' = last ?r" by (rule last_dropWhile)
    with lr "1.prems"(3) have "\<not> isWhiteSpace (last ?s')" by simp
    ultimately have "[] \<notin> set (split_ws ?s')" using ne "1.IH" [OF False] by blast
    moreover from False have "split_ws s = takeWhile ?P s # split_ws ?s'"
      by (rule split_ws_more)
    ultimately show ?thesis using t0 by simp
  qed
qed

lemma trim_Nil_iff: "trim s = [] \<longleftrightarrow> (\<forall>c\<in>set s. isWhiteSpace c)"
proof
  assume e: "trim s = []"
  from trim_decomp [of s] obtain pre post where "s = pre @ trim s @ post"
    and "\<forall>c\<in>set pre. isWhiteSpace c" and "\<forall>c\<in>set post. isWhiteSpace c"
    by blast
  with e have "s = pre @ post" by simp
  with \<open>\<forall>c\<in>set pre. isWhiteSpace c\<close> \<open>\<forall>c\<in>set post. isWhiteSpace c\<close>
  show "\<forall>c\<in>set s. isWhiteSpace c" by auto
next
  assume "\<forall>c\<in>set s. isWhiteSpace c"
  then show "trim s = []" by (rule trim_blank)
qed

lemma empty_piece_iff: "[] \<in> set (split_ws (trim s)) \<longleftrightarrow> (\<forall>c\<in>set s. isWhiteSpace c)"
proof
  assume e: "[] \<in> set (split_ws (trim s))"
  have "trim s = []"
  proof (rule ccontr)
    assume n: "trim s \<noteq> []"
    then have "[] \<notin> set (split_ws (trim s))"
      by (intro split_ws_no_empty_piece trim_ends)
    with e show False by simp
  qed
  then show "\<forall>c\<in>set s. isWhiteSpace c" by (simp only: trim_Nil_iff)
next
  assume "\<forall>c\<in>set s. isWhiteSpace c"
  then have "trim s = []" by (rule trim_blank)
  then show "[] \<in> set (split_ws (trim s))" by (simp add: split_ws_Nil)
qed

lemma nonempty_piece_iff:
  assumes "t \<noteq> []"
  shows "t \<in> set (split_ws (trim s)) \<longleftrightarrow>
     (\<forall>c\<in>set t. \<not> isWhiteSpace c)
     \<and> (\<exists>pre post. s = pre @ t @ post
           \<and> (pre = [] \<or> isWhiteSpace (last pre)) \<and> (post = [] \<or> isWhiteSpace (hd post)))"
proof -
  from assms have "t \<in> set (split_ws (trim s)) \<longleftrightarrow>
      t \<in> set (filter (\<lambda>t. t \<noteq> []) (split_ws (trim s)))"
    by simp
  also have "\<dots> \<longleftrightarrow> t \<in> set (filter (\<lambda>t. t \<noteq> []) (split_ws s))"
    by (simp only: cell_tokens_trim spec_cell_tokens_def)
  also from assms have "\<dots> \<longleftrightarrow> t \<in> set (split_ws s)" by simp
  also have "\<dots> \<longleftrightarrow> (\<forall>c\<in>set t. \<not> isWhiteSpace c)
     \<and> (\<exists>pre post. s = pre @ t @ post
           \<and> (pre = [] \<or> isWhiteSpace (last pre)) \<and> (post = [] \<or> isWhiteSpace (hd post)))"
  proof (intro iffI conjI ballI)
    fix c assume "t \<in> set (split_ws s)" "c \<in> set t"
    then show "\<not> isWhiteSpace c" by (rule split_ws_pieces)
  next
    assume "t \<in> set (split_ws s)"
    then show "\<exists>pre post. s = pre @ t @ post
           \<and> (pre = [] \<or> isWhiteSpace (last pre)) \<and> (post = [] \<or> isWhiteSpace (hd post))"
      by (rule split_ws_token_run)
  next
    assume "(\<forall>c\<in>set t. \<not> isWhiteSpace c)
     \<and> (\<exists>pre post. s = pre @ t @ post
           \<and> (pre = [] \<or> isWhiteSpace (last pre)) \<and> (post = [] \<or> isWhiteSpace (hd post)))"
    then obtain pre post where "s = pre @ t @ post" "\<forall>c\<in>set t. \<not> isWhiteSpace c"
      "pre = [] \<or> isWhiteSpace (last pre)" "post = [] \<or> isWhiteSpace (hd post)"
      by blast
    with assms show "t \<in> set (split_ws s)" by (intro split_ws_run_token [of s pre t post])
  qed
  finally show ?thesis .
qed

lemma piece_iff:
  "t \<in> set (split_ws (trim row)) \<longleftrightarrow>
     (t = [] \<and> (\<forall>c\<in>set row. isWhiteSpace c))
   \<or> (t \<noteq> [] \<and> (\<forall>c\<in>set t. \<not> isWhiteSpace c)
      \<and> (\<exists>pre post. row = pre @ t @ post
            \<and> (pre = [] \<or> isWhiteSpace (last pre)) \<and> (post = [] \<or> isWhiteSpace (hd post))))"
proof (cases "t = []")
  case True
  then show ?thesis by (simp add: empty_piece_iff)
next
  case False
  then show ?thesis by (simp only: nonempty_piece_iff [OF False] simp_thms)
qed

section \<open>Sets in insertion order and the area names\<close>

lemma set_Set_add: "set (Set_add xs x) = insert x (set xs)"
  by (auto simp: Set_add_def)

lemma distinct_Set_add: "distinct xs \<Longrightarrow> distinct (Set_add xs x)"
  by (simp add: Set_add_def)

lemma set_foldl_Set_add: "set (foldl Set_add xs ys) = set xs \<union> set ys"
  by (induction ys arbitrary: xs) (auto simp: set_Set_add)

lemma distinct_foldl_Set_add: "distinct xs \<Longrightarrow> distinct (foldl Set_add xs ys)"
  by (induction ys arbitrary: xs) (simp_all add: distinct_Set_add)

lemma set_add_area:
  "set (add_area xs a) = set xs \<union> ({a} - {js ''.'', js ''..''})"
  by (auto simp: add_area_def set_Set_add)

lemma distinct_add_area: "distinct xs \<Longrightarrow> distinct (add_area xs a)"
  by (simp add: add_area_def distinct_Set_add)

lemma set_foldl_add_area:
  "set (foldl add_area xs ts) = set xs \<union> (set ts - {js ''.'', js ''..''})"
  by (induction ts arbitrary: xs) (auto simp: set_add_area)

lemma distinct_foldl_add_area: "distinct xs \<Longrightarrow> distinct (foldl add_area xs ts)"
  by (induction ts arbitrary: xs) (simp_all add: distinct_add_area)

lemma set_extract_loop:
  "set (foldl (\<lambda>areaNames row. foldl add_area areaNames (split_ws (trim row))) xs rs) =
     set xs \<union> ((\<Union>row\<in>set rs. set (split_ws (trim row))) - {js ''.'', js ''..''})"
  by (induction rs arbitrary: xs) (auto simp: set_foldl_add_area)

lemma distinct_extract_loop:
  "distinct xs \<Longrightarrow>
   distinct (foldl (\<lambda>areaNames row. foldl add_area areaNames (split_ws (trim row))) xs rs)"
  by (induction rs arbitrary: xs) (simp_all add: distinct_foldl_add_area)

lemma set_extractAreaNames:
  "set (extractAreaNames rs) = (\<Union>row\<in>set rs. set (split_ws (trim row))) - {js ''.'', js ''..''}"
  by (simp add: extractAreaNames_def set_extract_loop)

lemma distinct_extractAreaNames: "distinct (extractAreaNames rs)"
  by (simp add: extractAreaNames_def distinct_extract_loop)

lemma blank_row_empty_name:
  assumes "row \<in> set rs" and "\<forall>c\<in>set row. isWhiteSpace c"
  shows "[] \<in> set (extractAreaNames rs)"
proof -
  from assms(2) have "split_ws (trim row) = [ [] ]"
    by (simp add: trim_blank split_ws_Nil)
  with assms(1) show ?thesis
    by (force simp: set_extractAreaNames)
qed

text \<open>
  Claim C5, amended. \<^const>\<open>extractAreaNames\<close> returns a list without repetition,
  so a name that occurs several times, in one row or in several, is listed once.
  A string is in the list exactly when it is neither of the two empty-cell markers
  \<^verbatim>\<open>.\<close> and \<^verbatim>\<open>..\<close> and, for some row, either it is a token of the row, that is,
  a non-empty run of characters other than white space with white space or an end
  of the row on each side, or it is the empty string and the row is empty or
  consists of white space only. No other token is left out, whatever its case or
  its characters.
\<close>

theorem extractAreaNames_distinct_tokens:
  "distinct (extractAreaNames rs)
   \<and> (\<forall>t. t \<in> set (extractAreaNames rs) \<longleftrightarrow>
          t \<noteq> js ''.'' \<and> t \<noteq> js ''..''
        \<and> (\<exists>row\<in>set rs.
              (t = [] \<and> (\<forall>c\<in>set row. isWhiteSpace c))
            \<or> (t \<noteq> [] \<and> (\<forall>c\<in>set t. \<not> isWhiteSpace c)
               \<and> (\<exists>pre post. row = pre @ t @ post
                     \<and> (pre = [] \<or> isWhiteSpace (last pre))
                     \<and> (post = [] \<or> isWhiteSpace (hd post))))))"
proof (intro conjI allI)
  show "distinct (extractAreaNames rs)" by (rule distinct_extractAreaNames)
next
  fix t
  have "t \<in> set (extractAreaNames rs) \<longleftrightarrow>
      t \<noteq> js ''.'' \<and> t \<noteq> js ''..'' \<and> (\<exists>row\<in>set rs. t \<in> set (split_ws (trim row)))"
    by (auto simp: set_extractAreaNames)
  then show "t \<in> set (extractAreaNames rs) \<longleftrightarrow>
          t \<noteq> js ''.'' \<and> t \<noteq> js ''..''
        \<and> (\<exists>row\<in>set rs.
              (t = [] \<and> (\<forall>c\<in>set row. isWhiteSpace c))
            \<or> (t \<noteq> [] \<and> (\<forall>c\<in>set t. \<not> isWhiteSpace c)
               \<and> (\<exists>pre post. row = pre @ t @ post
                     \<and> (pre = [] \<or> isWhiteSpace (last pre))
                     \<and> (post = [] \<or> isWhiteSpace (hd post)))))"
    by (simp only: piece_iff)
qed

text \<open>
  The amended claim at four rows with leading and trailing white space, runs of
  several spaces, both markers, a repeated name, a name in capitals and a blank
  row.
\<close>

theorem extractAreaNames_distinct_tokens_witness:
  "js ''c'' \<in> set (extractAreaNames [js ''a . b'', js '' . c  .. '', js ''b A'', js ''  ''])
   \<and> js ''.'' \<notin> set (extractAreaNames [js ''a . b'', js '' . c  .. '', js ''b A'', js ''  ''])
   \<and> js ''..'' \<notin> set (extractAreaNames [js ''a . b'', js '' . c  .. '', js ''b A'', js ''  ''])
   \<and> [] \<in> set (extractAreaNames [js ''a . b'', js '' . c  .. '', js ''b A'', js ''  ''])
   \<and> distinct (extractAreaNames [js ''a . b'', js '' . c  .. '', js ''b A'', js ''  ''])
   \<and> extractAreaNames [js ''a . b'', js '' . c  .. '', js ''b A'', js ''  ''] =
       [js ''a'', js ''b'', js ''c'', js ''A'', [] ]"
proof -
  let ?rs = "[js ''a . b'', js '' . c  .. '', js ''b A'', js ''  '']"
  note w = extractAreaNames_distinct_tokens [of ?rs]
  from w have d: "distinct (extractAreaNames ?rs)" by (rule conjunct1)
  from w have m: "t \<in> set (extractAreaNames ?rs) \<longleftrightarrow>
          t \<noteq> js ''.'' \<and> t \<noteq> js ''..''
        \<and> (\<exists>row\<in>set ?rs.
              (t = [] \<and> (\<forall>c\<in>set row. isWhiteSpace c))
            \<or> (t \<noteq> [] \<and> (\<forall>c\<in>set t. \<not> isWhiteSpace c)
               \<and> (\<exists>pre post. row = pre @ t @ post
                     \<and> (pre = [] \<or> isWhiteSpace (last pre))
                     \<and> (post = [] \<or> isWhiteSpace (hd post)))))" for t
    by blast
  have "js '' . c  .. '' = js '' . '' @ js ''c'' @ js ''  .. ''" by simp
  moreover have "isWhiteSpace (last (js '' . ''))" "isWhiteSpace (hd (js ''  .. ''))"
    "\<forall>c\<in>set (js ''c''). \<not> isWhiteSpace c"
    by (simp_all add: isWhiteSpace_def isLineTerminator_def)
  ultimately have "\<exists>row\<in>set ?rs. (js ''c'' = [] \<and> (\<forall>c\<in>set row. isWhiteSpace c))
            \<or> (js ''c'' \<noteq> [] \<and> (\<forall>c\<in>set (js ''c''). \<not> isWhiteSpace c)
               \<and> (\<exists>pre post. row = pre @ js ''c'' @ post
                     \<and> (pre = [] \<or> isWhiteSpace (last pre))
                     \<and> (post = [] \<or> isWhiteSpace (hd post))))"
    by (intro bexI [of _ "js '' . c  .. ''"] disjI2 conjI exI [of _ "js '' . ''"]
        exI [of _ "js ''  .. ''"]) simp_all
  then have c: "js ''c'' \<in> set (extractAreaNames ?rs)"
    by (subst m) simp
  have "\<forall>c\<in>set (js ''  ''). isWhiteSpace c"
    by (simp add: isWhiteSpace_def isLineTerminator_def)
  then have "\<exists>row\<in>set ?rs. ([] = [] \<and> (\<forall>c\<in>set row. isWhiteSpace c))"
    by (intro bexI [of _ "js ''  ''"]) simp_all
  then have e: "[] \<in> set (extractAreaNames ?rs)"
    by (subst m) auto
  have n1: "js ''.'' \<notin> set (extractAreaNames ?rs)" by (subst m) simp
  have n2: "js ''..'' \<notin> set (extractAreaNames ?rs)" by (subst m) simp
  have x: "extractAreaNames ?rs = [js ''a'', js ''b'', js ''c'', js ''A'', [] ]"
    by code_simp
  from c n1 n2 e d x show ?thesis by (intro conjI)
qed

text \<open>
  The claim as stated fails for a blank row: the row has no token, and the empty
  string is among the names returned.
\<close>

theorem blank_row_not_a_token_counterexample:
  "extractAreaNames [js ''a'', js '' ''] = [js ''a'', [] ]
   \<and> spec_cell_tokens (js ''a'') = [js ''a'']
   \<and> spec_cell_tokens (js '' '') = []
   \<and> [] \<in> set (extractAreaNames [js ''a'', js '' ''])
   \<and> [] \<notin> set (spec_cell_tokens (js ''a'')) \<union> set (spec_cell_tokens (js '' ''))"
  by code_simp

lemma fst_layout_loop:
  "fst (foldl layout_step st es) =
     foldl (\<lambda>names entry. foldl Set_add names
              (extractAreaNames (rows (normalizeAreaConfig (snd entry))))) (fst st) es"
  by (induction es arbitrary: st) (simp_all add: layout_step_def Let_def)

lemma snd_layout_loop:
  "snd (foldl layout_step st es) =
     foldl (\<lambda>u entry. AList.update (js ''.grid-areas-'' @ fst entry)
              (layout_styles (normalizeAreaConfig (snd entry))) u) (snd st) es"
  by (induction es arbitrary: st) (simp_all add: layout_step_def Let_def)

lemma set_names_loop:
  "set (foldl (\<lambda>names entry. foldl Set_add names
              (extractAreaNames (rows (normalizeAreaConfig (snd entry))))) xs es) =
   set xs \<union> (\<Union>entry\<in>set es. set (extractAreaNames (rows (normalizeAreaConfig (snd entry)))))"
  by (induction es arbitrary: xs) (auto simp: set_foldl_Set_add)

lemma distinct_names_loop:
  "distinct xs \<Longrightarrow> distinct (foldl (\<lambda>names entry. foldl Set_add names
              (extractAreaNames (rows (normalizeAreaConfig (snd entry))))) xs es)"
  by (induction es arbitrary: xs) (simp_all add: distinct_foldl_Set_add)

lemma set_allAreaNames:
  "set (allAreaNames es) =
     (\<Union>entry\<in>set es. set (extractAreaNames (rows (normalizeAreaConfig (snd entry)))))"
  by (simp add: allAreaNames_def layout_loop_def fst_layout_loop set_names_loop)

lemma distinct_allAreaNames: "distinct (allAreaNames es)"
  by (simp add: allAreaNames_def layout_loop_def fst_layout_loop distinct_names_loop)

lemma empty_name_in_allAreaNames:
  assumes "(name, config) \<in> set es" and "row \<in> set (rows (normalizeAreaConfig config))"
    and "\<forall>c\<in>set row. isWhiteSpace c"
  shows "[] \<in> set (allAreaNames es)"
proof -
  from assms(2,3) have "[] \<in> set (extractAreaNames (rows (normalizeAreaConfig config)))"
    by (rule blank_row_empty_name)
  with assms(1) show ?thesis by (force simp: set_allAreaNames)
qed

section \<open>Objects built by successive assignment\<close>

lemma map_of_foldl_update:
  "map_of (foldl (\<lambda>u e. AList.update (f e) (g e) u) u0 es) =
     map_of (rev (map (\<lambda>e. (f e, g e)) es) @ u0)"
proof (induction es arbitrary: u0)
  case Nil
  show ?case by simp
next
  case (Cons e es)
  show ?case by (simp add: Cons.IH update_conv')
qed

lemma distinct_foldl_update:
  "distinct (map fst u0) \<Longrightarrow>
   distinct (map fst (foldl (\<lambda>u e. AList.update (f e) (g e) u) u0 es))"
  by (induction es arbitrary: u0) (simp_all add: distinct_update)

lemma filter_key_single:
  "distinct (map fst al) \<Longrightarrow> map_of al k = Some v \<Longrightarrow> filter (\<lambda>d. fst d = k) al = [(k, v)]"
proof (induction al)
  case Nil
  then show ?case by simp
next
  case (Cons p al)
  show ?case
  proof (cases "fst p = k")
    case True
    with Cons.prems have "p = (k, v)" by (cases p) simp
    moreover have "filter (\<lambda>d. fst d = k) al = []"
    proof -
      from True Cons.prems(1) have "k \<notin> fst ` set al" by simp
      then have "\<forall>d\<in>set al. fst d \<noteq> k" by force
      then show ?thesis by (simp add: filter_empty_conv)
    qed
    ultimately show ?thesis by simp
  next
    case False
    with Cons show ?thesis by (cases p) auto
  qed
qed

lemma update_fresh: "k \<notin> fst ` set al \<Longrightarrow> AList.update k v al = al @ [(k, v)]"
  by (induction al) auto

lemma map_of_keyed:
  "inj f \<Longrightarrow> a \<in> set xs \<Longrightarrow> map_of (map (\<lambda>a. (f a, g a)) xs) (f a) = Some (g a)"
  by (induction xs) (auto dest: injD)

lemma map_of_keyed_notin:
  "x \<notin> f ` set xs \<Longrightarrow> map_of (map (\<lambda>a. (f a, g a)) xs) x = None"
  by (induction xs) auto

lemma inj_prefix: "inj ((@) (p :: js_string))"
  by (simp add: inj_on_def)

lemma map_of_foldl_update_in:
  assumes "inj f" and "k \<in> set ks"
  shows "map_of (foldl (\<lambda>u e. AList.update (f e) (g e) u) u0 ks) (f k) = Some (g k)"
proof -
  from assms have "map_of (map (\<lambda>e. (f e, g e)) (rev ks)) (f k) = Some (g k)"
    by (intro map_of_keyed) simp_all
  then show ?thesis
    by (simp add: map_of_foldl_update rev_map map_add_find_right)
qed

lemma map_of_foldl_update_notin:
  assumes "x \<notin> f ` set ks"
  shows "map_of (foldl (\<lambda>u e. AList.update (f e) (g e) u) u0 ks) x = map_of u0 x"
proof -
  from assms have "map_of (map (\<lambda>e. (f e, g e)) (rev ks)) x = None"
    by (intro map_of_keyed_notin) simp
  then show ?thesis
    by (simp add: map_of_foldl_update rev_map map_add_def)
qed

lemma keys_foldl_update:
  "fst ` set (foldl (\<lambda>u e. AList.update (f e) (g e) u) u0 es) = fst ` set u0 \<union> f ` set es"
  by (induction es arbitrary: u0) (auto simp: dom_update)

lemma distinct_layout_utilities: "distinct (map fst (snd (layout_loop es)))"
  by (simp add: layout_loop_def snd_layout_loop distinct_foldl_update)

lemma distinct_gridAreasUtilities: "distinct (map fst (gridAreasUtilities es))"
  by (simp add: gridAreasUtilities_def distinct_foldl_update distinct_layout_utilities)

lemma distinct_gridAreaUtilities: "distinct (map fst (gridAreaUtilities es))"
  by (simp add: gridAreaUtilities_def distinct_foldl_update)

section \<open>The layout utilities\<close>

lemma layout_styles_cases:
  "layout_styles c =
     [(js ''display'', js ''grid''), (js ''grid-template-areas'', formatGridTemplateAreas (rows c))]
     @ (case gridTemplateRows c of None \<Rightarrow> []
        | Some v \<Rightarrow> if v \<noteq> [] then [(js ''grid-template-rows'', v)] else [])
     @ (case gridTemplateColumns c of None \<Rightarrow> []
        | Some v \<Rightarrow> if v \<noteq> [] then [(js ''grid-template-columns'', v)] else [])"
  by (simp add: layout_styles_def Let_def split: option.splits)

lemma layout_utility_registered:
  assumes "distinct (map fst es)" and "(name, config) \<in> set es" and "name \<notin> set CSS_KEYWORDS"
  shows "map_of (gridAreasUtilities es) (js ''.grid-areas-'' @ name) =
           Some (layout_styles (normalizeAreaConfig config))"
proof -
  let ?f = "\<lambda>e :: js_string \<times> area_config. (js ''.grid-areas-'') @ fst e"
  let ?g = "\<lambda>e :: js_string \<times> area_config. layout_styles (normalizeAreaConfig (snd e))"
  let ?l = "map (\<lambda>e. (?f e, ?g e)) es"
  from assms(1) have d: "distinct (map fst (rev ?l))"
    by (auto simp: distinct_map inj_on_def comp_def)
  from assms(2) have "(?f (name, config), ?g (name, config)) \<in> set (rev ?l)"
    by force
  with d have "map_of (rev ?l) (js ''.grid-areas-'' @ name) =
      Some (layout_styles (normalizeAreaConfig config))"
    by (simp add: map_of_is_SomeI del: set_rev rev_map)
  then have "map_of (snd (layout_loop es)) (js ''.grid-areas-'' @ name) =
      Some (layout_styles (normalizeAreaConfig config))"
    by (simp add: layout_loop_def snd_layout_loop map_of_foldl_update del: rev_map)
  moreover from assms(3) have "js ''.grid-areas-'' @ name \<notin> (@) (js ''.grid-areas-'') ` set CSS_KEYWORDS"
    by auto
  then have "map_of (gridAreasUtilities es) (js ''.grid-areas-'' @ name) =
      map_of (snd (layout_loop es)) (js ''.grid-areas-'' @ name)"
    unfolding gridAreasUtilities_def
    by (rule map_of_foldl_update_notin [where f = "(@) (js ''.grid-areas-'')"])
  ultimately show ?thesis by simp
qed

text \<open>
  Claim C8, amended. The declaration generated for a layout sets
  \<^verbatim>\<open>display: grid\<close> and \<^verbatim>\<open>grid-template-areas\<close>; it has
  \<^verbatim>\<open>grid-template-rows\<close> (and likewise \<^verbatim>\<open>grid-template-columns\<close>) exactly when
  the track argument is given and is not the empty string, with the argument as
  its value, and it has no other property. When the layout names are distinct and
  the name is not one of the six CSS-wide keywords, this declaration is the one
  registered for the selector \<^verbatim>\<open>.grid-areas-<name>\<close>.
\<close>

theorem layout_utility_tracks:
  "let c = normalizeAreaConfig config; styles = layout_styles c in
     map_of styles (js ''display'') = Some (js ''grid'')
   \<and> map_of styles (js ''grid-template-areas'') = Some (formatGridTemplateAreas (rows c))
   \<and> map_of styles (js ''grid-template-rows'') =
        (case gridTemplateRows c of None \<Rightarrow> None | Some v \<Rightarrow> if v = [] then None else Some v)
   \<and> map_of styles (js ''grid-template-columns'') =
        (case gridTemplateColumns c of None \<Rightarrow> None | Some v \<Rightarrow> if v = [] then None else Some v)
   \<and> fst ` set styles \<subseteq> {js ''display'', js ''grid-template-areas'', js ''grid-template-rows'',
                             js ''grid-template-columns''}
   \<and> (distinct (map fst entries) \<and> (name, config) \<in> set entries \<and> name \<notin> set CSS_KEYWORDS
        \<longrightarrow> map_of (gridAreasUtilities entries) (js ''.grid-areas-'' @ name) = Some styles)"
proof -
  let ?c = "normalizeAreaConfig config"
  have "map_of (layout_styles ?c) (js ''display'') = Some (js ''grid'')"
    by (simp add: layout_styles_cases)
  moreover have "map_of (layout_styles ?c) (js ''grid-template-areas'') =
      Some (formatGridTemplateAreas (rows ?c))"
    by (simp add: layout_styles_cases)
  moreover have "map_of (layout_styles ?c) (js ''grid-template-rows'') =
      (case gridTemplateRows ?c of None \<Rightarrow> None | Some v \<Rightarrow> if v = [] then None else Some v)"
    by (simp add: layout_styles_cases split: option.splits)
  moreover have "map_of (layout_styles ?c) (js ''grid-template-columns'') =
      (case gridTemplateColumns ?c of None \<Rightarrow> None | Some v \<Rightarrow> if v = [] then None else Some v)"
    by (simp add: layout_styles_cases split: option.splits)
  moreover have "fst ` set (layout_styles ?c) \<subseteq>
      {js ''display'', js ''grid-template-areas'', js ''grid-template-rows'', js ''grid-template-columns''}"
    by (cases "gridTemplateRows ?c"; cases "gridTemplateColumns ?c")
       (auto simp: layout_styles_cases)
  moreover have "distinct (map fst entries) \<and> (name, config) \<in> set entries
      \<and> name \<notin> set CSS_KEYWORDS
      \<longrightarrow> map_of (gridAreasUtilities entries) (js ''.grid-areas-'' @ name) = Some (layout_styles ?c)"
    by (blast intro: layout_utility_registered)
  ultimately show ?thesis unfolding Let_def by blast
qed

text \<open>
  The amended claim at a layout with row tracks and without column tracks.
\<close>

theorem layout_utility_tracks_witness:
  \<open>distinct (map fst [(js ''page'', Area \<lparr>rows = [js ''a b''], gridTemplateRows = Some (js ''auto 1fr''),
                                      gridTemplateColumns = None\<rparr>)])
   \<and> js ''page'' \<notin> set CSS_KEYWORDS
   \<and> map_of (gridAreasUtilities [(js ''page'', Area \<lparr>rows = [js ''a b''],
               gridTemplateRows = Some (js ''auto 1fr''), gridTemplateColumns = None\<rparr>)])
        (js ''.grid-areas-page'') =
       Some [(js ''display'', js ''grid''), (js ''grid-template-areas'', js ''"a b"''),
             (js ''grid-template-rows'', js ''auto 1fr'')]\<close>
proof -
  let ?config = "Area \<lparr>rows = [js ''a b''], gridTemplateRows = Some (js ''auto 1fr''),
                        gridTemplateColumns = None\<rparr>"
  have h1: "distinct (map fst [(js ''page'', ?config)])" by simp
  have h2: "(js ''page'', ?config) \<in> set [(js ''page'', ?config)]" by simp
  have h3: "js ''page'' \<notin> set CSS_KEYWORDS" by (simp add: CSS_KEYWORDS_def)
  from layout_utility_tracks [of ?config "[(js ''page'', ?config)]" "js ''page''"] h1 h2 h3
  have "map_of (gridAreasUtilities [(js ''page'', ?config)]) (js ''.grid-areas-'' @ js ''page'') =
      Some (layout_styles (normalizeAreaConfig ?config))"
    unfolding Let_def by blast
  then show ?thesis using h1 h3
    by (simp add: layout_styles_cases formatGridTemplateAreas_def quoted_def)
qed

text \<open>
  The claim as stated fails for a track argument that is the empty string: the
  argument is given, and the declaration has no \<^verbatim>\<open>grid-template-rows\<close>.
\<close>

theorem empty_track_omitted_counterexample:
  \<open>gridTemplateRows (normalizeAreaConfig (Area \<lparr>rows = [js ''a b''], gridTemplateRows = Some [],
       gridTemplateColumns = Some (js ''1fr'')\<rparr>)) = Some []
   \<and> layout_styles (normalizeAreaConfig (Area \<lparr>rows = [js ''a b''], gridTemplateRows = Some [],
       gridTemplateColumns = Some (js ''1fr'')\<rparr>)) =
     [(js ''display'', js ''grid''), (js ''grid-template-areas'', js ''"a b"''),
      (js ''grid-template-columns'', js ''1fr'')]
   \<and> map_of (gridAreasUtilities [(js ''page'', Area \<lparr>rows = [js ''a b''], gridTemplateRows = Some [],
       gridTemplateColumns = Some (js ''1fr'')\<rparr>)]) (js ''.grid-areas-page'') =
     Some [(js ''display'', js ''grid''), (js ''grid-template-areas'', js ''"a b"''),
           (js ''grid-template-columns'', js ''1fr'')]\<close>
  by (simp add: layout_styles_def formatGridTemplateAreas_def quoted_def gridAreasUtilities_def
      layout_loop_def layout_step_def CSS_KEYWORDS_def)

section \<open>The line utilities and the placement utilities\<close>

lemma line_step_fresh:
  assumes "\<forall>k\<in>fst ` set (line_declarations a). k \<notin> fst ` set u"
  shows "line_step u a = u @ line_declarations a"
  using assms by (simp add: line_step_def line_declarations_def Let_def update_fresh)

lemma line_keys_disjoint:
  "a \<noteq> b \<Longrightarrow> fst ` set (line_declarations a) \<inter> fst ` set (line_declarations b) = {}"
  by (simp add: line_declarations_def)

lemma foldl_line_step:
  assumes "distinct names"
    and "\<forall>a\<in>set names. \<forall>k\<in>fst ` set (line_declarations a). k \<notin> fst ` set u"
  shows "foldl line_step u names = u @ concat (map line_declarations names)"
  using assms
proof (induction names arbitrary: u)
  case Nil
  show ?case by simp
next
  case (Cons a names)
  from Cons.prems(2) have step: "line_step u a = u @ line_declarations a"
    by (intro line_step_fresh) simp
  have "\<forall>b\<in>set names. \<forall>k\<in>fst ` set (line_declarations b).
          k \<notin> fst ` set (u @ line_declarations a)"
  proof (intro ballI)
    fix b k assume b: "b \<in> set names" and k: "k \<in> fst ` set (line_declarations b)"
    from b Cons.prems(1) have "a \<noteq> b" by auto
    with k line_keys_disjoint [of a b] have "k \<notin> fst ` set (line_declarations a)" by blast
    moreover from b k Cons.prems(2) have "k \<notin> fst ` set u"
      by (metis list.set_intros(2))
    ultimately show "k \<notin> fst ` set (u @ line_declarations a)" by (simp add: image_Un)
  qed
  with Cons.prems(1) have "foldl line_step (u @ line_declarations a) names =
      (u @ line_declarations a) @ concat (map line_declarations names)"
    by (intro Cons.IH) simp_all
  with step show ?case by simp
qed

lemma lineUtilities_concat:
  "lineUtilities es = concat (map line_declarations (allAreaNames es))"
  by (simp add: lineUtilities_def foldl_line_step distinct_allAreaNames)

lemma distinct_line_step: "distinct (map fst u) \<Longrightarrow> distinct (map fst (line_step u a))"
  by (simp add: line_step_def Let_def distinct_update)

lemma distinct_lineUtilities: "distinct (map fst (lineUtilities es))"
proof -
  have "distinct (map fst u) \<Longrightarrow> distinct (map fst (foldl line_step u names))" for u names
    by (induction names arbitrary: u) (simp_all add: distinct_line_step)
  then show ?thesis by (simp add: lineUtilities_def)
qed

text \<open>
  Claim C6. The object of the line utilities consists, for every discovered area
  name \<open>X\<close> in turn, of exactly six declarations: \<^verbatim>\<open>row-start-X\<close> with
  \<^verbatim>\<open>grid-row-start: X-start\<close>, \<^verbatim>\<open>row-end-X\<close> with \<^verbatim>\<open>grid-row-end: X-end\<close>,
  \<^verbatim>\<open>row-span-X\<close> with \<^verbatim>\<open>grid-row: X-start / X-end\<close>, and the same three for
  columns. The area names are distinct, so are the selectors, and the object has
  six entries for each name.
\<close>

theorem lineUtilities_six_per_area:
  "lineUtilities entries =
     concat (map (\<lambda>X.
       [(js ''.row-start-'' @ X, [(js ''grid-row-start'', X @ js ''-start'')]),
        (js ''.row-end-'' @ X, [(js ''grid-row-end'', X @ js ''-end'')]),
        (js ''.row-span-'' @ X, [(js ''grid-row'', X @ js ''-start / '' @ X @ js ''-end'')]),
        (js ''.col-start-'' @ X, [(js ''grid-column-start'', X @ js ''-start'')]),
        (js ''.col-end-'' @ X, [(js ''grid-column-end'', X @ js ''-end'')]),
        (js ''.col-span-'' @ X, [(js ''grid-column'', X @ js ''-start / '' @ X @ js ''-end'')])])
       (allAreaNames entries))
   \<and> distinct (allAreaNames entries)
   \<and> distinct (map fst (lineUtilities entries))
   \<and> length (lineUtilities entries) = 6 * length (allAreaNames entries)"
proof -
  have eq: "line_declarations = (\<lambda>X.
       [(js ''.row-start-'' @ X, [(js ''grid-row-start'', X @ js ''-start'')]),
        (js ''.row-end-'' @ X, [(js ''grid-row-end'', X @ js ''-end'')]),
        (js ''.row-span-'' @ X, [(js ''grid-row'', X @ js ''-start / '' @ X @ js ''-end'')]),
        (js ''.col-start-'' @ X, [(js ''grid-column-start'', X @ js ''-start'')]),
        (js ''.col-end-'' @ X, [(js ''grid-column-end'', X @ js ''-end'')]),
        (js ''.col-span-'' @ X, [(js ''grid-column'', X @ js ''-start / '' @ X @ js ''-end'')])])"
    by (rule ext) (simp add: line_declarations_def)
  have "length (concat (map line_declarations names)) = 6 * length names" for names
    by (induction names) (simp_all add: line_declarations_def)
  then have "length (lineUtilities entries) = 6 * length (allAreaNames entries)"
    by (simp add: lineUtilities_concat)
  moreover have "lineUtilities entries = concat (map line_declarations (allAreaNames entries))"
    by (rule lineUtilities_concat)
  ultimately show ?thesis
    unfolding eq [symmetric]
    by (intro conjI distinct_allAreaNames distinct_lineUtilities)
qed

lemma gridAreaUtilities_empty_name:
  assumes "[] \<in> set (allAreaNames es)"
  shows "map_of (gridAreaUtilities es) (js ''.grid-area-'') = Some [(js ''grid-area'', [])]"
proof -
  let ?u = "foldl (\<lambda>u areaName.
                 AList.update (js ''.grid-area-'' @ areaName) [(js ''grid-area'', areaName)] u)
          [] (allAreaNames es)"
  have "js ''.grid-area-'' \<notin> (@) (js ''.grid-area-'') ` set GRID_AREA_KEYWORDS"
    by (simp add: GRID_AREA_KEYWORDS_def CSS_KEYWORDS_def)
  then have "map_of (gridAreaUtilities es) (js ''.grid-area-'') = map_of ?u (js ''.grid-area-'')"
    unfolding gridAreaUtilities_def
    by (rule map_of_foldl_update_notin [where f = "(@) (js ''.grid-area-'')"])
  also from assms have "map_of ?u (js ''.grid-area-'' @ []) = Some [(js ''grid-area'', [])]"
    by (intro map_of_foldl_update_in [where f = "(@) (js ''.grid-area-'')"] inj_prefix)
  then have "map_of ?u (js ''.grid-area-'') = Some [(js ''grid-area'', [])]" by simp
  finally show ?thesis .
qed

lemma lineUtilities_lookup:
  assumes "a \<in> set (allAreaNames es)" and "(k, v) \<in> set (line_declarations a)"
  shows "map_of (lineUtilities es) k = Some v"
proof -
  from assms have "(k, v) \<in> set (lineUtilities es)"
    by (auto simp: lineUtilities_concat)
  with distinct_lineUtilities [of es] show ?thesis by (rule map_of_is_SomeI)
qed

text \<open>
  Claim C10. When a configured layout has a row that is empty or consists of white
  space only, the empty string is one of its area names, and the plugin registers
  utilities for it: their selectors are the bare \<^verbatim>\<open>.grid-area-\<close>,
  \<^verbatim>\<open>.row-start-\<close>, \<^verbatim>\<open>.col-span-\<close> and those of the other three line utilities,
  with an empty suffix.
\<close>

theorem blank_row_empty_area_name:
  assumes "(name, config) \<in> set entries"
    and "row \<in> set (rows (normalizeAreaConfig config))"
    and "\<forall>c\<in>set row. isWhiteSpace c"
  shows "[] \<in> set (extractAreaNames (rows (normalizeAreaConfig config)))
       \<and> [] \<in> set (allAreaNames entries)
       \<and> map_of (gridAreaUtilities entries) (js ''.grid-area-'') = Some [(js ''grid-area'', [])]
       \<and> map_of (lineUtilities entries) (js ''.row-start-'') = Some [(js ''grid-row-start'', js ''-start'')]
       \<and> map_of (lineUtilities entries) (js ''.row-end-'') = Some [(js ''grid-row-end'', js ''-end'')]
       \<and> map_of (lineUtilities entries) (js ''.row-span-'') = Some [(js ''grid-row'', js ''-start / -end'')]
       \<and> map_of (lineUtilities entries) (js ''.col-start-'') = Some [(js ''grid-column-start'', js ''-start'')]
       \<and> map_of (lineUtilities entries) (js ''.col-end-'') = Some [(js ''grid-column-end'', js ''-end'')]
       \<and> map_of (lineUtilities entries) (js ''.col-span-'') = Some [(js ''grid-column'', js ''-start / -end'')]"
proof -
  from assms(2,3) have e: "[] \<in> set (extractAreaNames (rows (normalizeAreaConfig config)))"
    by (rule blank_row_empty_name)
  from assms have a: "[] \<in> set (allAreaNames entries)"
    by (rule empty_name_in_allAreaNames)
  note l = lineUtilities_lookup [OF a]
  show ?thesis
    by (intro conjI e a gridAreaUtilities_empty_name l) (simp_all add: line_declarations_def)
qed

text \<open>
  The claim at a layout whose second row is two spaces.
\<close>

theorem blank_row_empty_area_name_witness:
  "(js ''page'', Rows [js ''a b'', js ''  '']) \<in> set [(js ''page'', Rows [js ''a b'', js ''  ''])]
   \<and> js ''  '' \<in> set (rows (normalizeAreaConfig (Rows [js ''a b'', js ''  ''])))
   \<and> list_all isWhiteSpace (js ''  '')
   \<and> extractAreaNames [js ''a b'', js ''  ''] = [js ''a'', js ''b'', [] ]
   \<and> map_of (gridAreaUtilities [(js ''page'', Rows [js ''a b'', js ''  ''])]) (js ''.grid-area-'') =
       Some [(js ''grid-area'', [])]
   \<and> map_of (lineUtilities [(js ''page'', Rows [js ''a b'', js ''  ''])]) (js ''.row-start-'') =
       Some [(js ''grid-row-start'', js ''-start'')]
   \<and> map_of (lineUtilities [(js ''page'', Rows [js ''a b'', js ''  ''])]) (js ''.col-span-'') =
       Some [(js ''grid-column'', js ''-start / -end'')]"
proof -
  have h1: "(js ''page'', Rows [js ''a b'', js ''  '']) \<in> set [(js ''page'', Rows [js ''a b'', js ''  ''])]"
    by simp
  have h2: "js ''  '' \<in> set (rows (normalizeAreaConfig (Rows [js ''a b'', js ''  ''])))" by simp
  have h3: "\<forall>c\<in>set (js ''  ''). isWhiteSpace c" by (simp add: isWhiteSpace_def isLineTerminator_def)
  have x: "extractAreaNames [js ''a b'', js ''  ''] = [js ''a'', js ''b'', [] ]"
    by (simp add: extractAreaNames_def trim_def isWhiteSpace_def isLineTerminator_def split_ws.simps add_area_def
        Set_add_def)
  from blank_row_empty_area_name [OF h1 h2 h3] h1 h2 x show ?thesis
    by (simp add: isWhiteSpace_def isLineTerminator_def)
qed

section \<open>The keyword utilities\<close>

lemma gridAreasUtilities_keyword:
  "k \<in> set CSS_KEYWORDS \<Longrightarrow>
   map_of (gridAreasUtilities es) (js ''.grid-areas-'' @ k) =
     Some [(js ''display'', js ''grid''), (js ''grid-template-areas'', k)]"
  unfolding gridAreasUtilities_def
  by (rule map_of_foldl_update_in [where f = "(@) (js ''.grid-areas-'')"]) (simp_all add: inj_prefix)

lemma gridAreaUtilities_keyword:
  "k \<in> set GRID_AREA_KEYWORDS \<Longrightarrow>
   map_of (gridAreaUtilities es) (js ''.grid-area-'' @ k) = Some [(js ''grid-area'', k)]"
  unfolding gridAreaUtilities_def
  by (rule map_of_foldl_update_in [where f = "(@) (js ''.grid-area-'')"]) (simp_all add: inj_prefix)

lemma keys_gridAreasUtilities:
  "fst ` set (gridAreasUtilities es) =
     (\<lambda>e. (js ''.grid-areas-'') @ fst e) ` set es \<union> (@) (js ''.grid-areas-'') ` set CSS_KEYWORDS"
  by (simp add: gridAreasUtilities_def layout_loop_def snd_layout_loop keys_foldl_update)

lemma keys_gridAreaUtilities:
  "fst ` set (gridAreaUtilities es) =
     (@) (js ''.grid-area-'') ` set (allAreaNames es) \<union> (@) (js ''.grid-area-'') ` set GRID_AREA_KEYWORDS"
  by (simp add: gridAreaUtilities_def keys_foldl_update)

lemma keys_lineUtilities:
  "fst ` set (lineUtilities es) = (\<Union>a\<in>set (allAreaNames es). fst ` set (line_declarations a))"
  by (simp add: lineUtilities_concat image_UN)

lemma keyword_selectors_elsewhere:
  "js ''.grid-areas-'' @ k \<notin> fst ` set (gridAreaUtilities es)"
  "js ''.grid-areas-'' @ k \<notin> fst ` set (lineUtilities es)"
  "js ''.grid-area-'' @ k \<notin> fst ` set (gridAreasUtilities es)"
  "js ''.grid-area-'' @ k \<notin> fst ` set (lineUtilities es)"
  by (auto simp: keys_gridAreasUtilities keys_gridAreaUtilities keys_lineUtilities
      line_declarations_def)

text \<open>
  Claim C7. Whatever layouts are configured, the object of the layout utilities
  has exactly one entry for the selector of each of \<^verbatim>\<open>none\<close>, \<^verbatim>\<open>inherit\<close>,
  \<^verbatim>\<open>initial\<close>, \<^verbatim>\<open>revert\<close>, \<^verbatim>\<open>revert-layer\<close> and \<^verbatim>\<open>unset\<close>, with the
  keyword's declaration as its body, and the object of the placement utilities has
  exactly one entry for each of \<^verbatim>\<open>auto\<close> and these six keywords. The selector of a
  keyword utility occurs in no other object that the plugin registers, and no
  selector occurs twice in an object, also when a layout or an area carries the
  name of a keyword.
\<close>

theorem keyword_utilities_once:
  "(\<forall>k\<in>set [js ''none'', js ''inherit'', js ''initial'', js ''revert'', js ''revert-layer'',
               js ''unset''].
      filter (\<lambda>d. fst d = js ''.grid-areas-'' @ k) (gridAreasUtilities entries) =
        [(js ''.grid-areas-'' @ k, [(js ''display'', js ''grid''), (js ''grid-template-areas'', k)])]
      \<and> js ''.grid-areas-'' @ k \<notin> fst ` set (gridAreaUtilities entries)
      \<and> js ''.grid-areas-'' @ k \<notin> fst ` set (lineUtilities entries))
   \<and> (\<forall>k\<in>set [js ''auto'', js ''none'', js ''inherit'', js ''initial'', js ''revert'',
               js ''revert-layer'', js ''unset''].
      filter (\<lambda>d. fst d = js ''.grid-area-'' @ k) (gridAreaUtilities entries) =
        [(js ''.grid-area-'' @ k, [(js ''grid-area'', k)])]
      \<and> js ''.grid-area-'' @ k \<notin> fst ` set (gridAreasUtilities entries)
      \<and> js ''.grid-area-'' @ k \<notin> fst ` set (lineUtilities entries))
   \<and> distinct (map fst (gridAreasUtilities entries))
   \<and> distinct (map fst (gridAreaUtilities entries))"
proof (intro conjI ballI)
  fix k
  assume "k \<in> set [js ''none'', js ''inherit'', js ''initial'', js ''revert'', js ''revert-layer'',
               js ''unset'']"
  then have "k \<in> set CSS_KEYWORDS" by (simp only: CSS_KEYWORDS_def)
  then show "filter (\<lambda>d. fst d = js ''.grid-areas-'' @ k) (gridAreasUtilities entries) =
        [(js ''.grid-areas-'' @ k, [(js ''display'', js ''grid''), (js ''grid-template-areas'', k)])]"
    by (intro filter_key_single distinct_gridAreasUtilities gridAreasUtilities_keyword)
next
  fix k
  assume "k \<in> set [js ''auto'', js ''none'', js ''inherit'', js ''initial'', js ''revert'',
               js ''revert-layer'', js ''unset'']"
  then have "k \<in> set GRID_AREA_KEYWORDS" by (simp only: GRID_AREA_KEYWORDS_def CSS_KEYWORDS_def)
  then show "filter (\<lambda>d. fst d = js ''.grid-area-'' @ k) (gridAreaUtilities entries) =
        [(js ''.grid-area-'' @ k, [(js ''grid-area'', k)])]"
    by (intro filter_key_single distinct_gridAreaUtilities gridAreaUtilities_keyword)
qed (rule distinct_gridAreasUtilities distinct_gridAreaUtilities keyword_selectors_elsewhere)+

text \<open>
  The claim at a configuration with a layout named \<^verbatim>\<open>none\<close> and areas named
  \<^verbatim>\<open>auto\<close> and \<^verbatim>\<open>none\<close>, and the selectors of the two objects when nothing is
  configured.
\<close>

theorem keyword_utilities_once_witness:
  "filter (\<lambda>d. fst d = js ''.grid-areas-none'')
        (gridAreasUtilities [(js ''none'', Rows [js ''auto b'']), (js ''page'', Rows [js ''none c''])]) =
      [(js ''.grid-areas-none'', [(js ''display'', js ''grid''), (js ''grid-template-areas'', js ''none'')])]
   \<and> filter (\<lambda>d. fst d = js ''.grid-areas-revert-layer'')
        (gridAreasUtilities [(js ''none'', Rows [js ''auto b'']), (js ''page'', Rows [js ''none c''])]) =
      [(js ''.grid-areas-revert-layer'',
        [(js ''display'', js ''grid''), (js ''grid-template-areas'', js ''revert-layer'')])]
   \<and> filter (\<lambda>d. fst d = js ''.grid-area-auto'')
        (gridAreaUtilities [(js ''none'', Rows [js ''auto b'']), (js ''page'', Rows [js ''none c''])]) =
      [(js ''.grid-area-auto'', [(js ''grid-area'', js ''auto'')])]
   \<and> filter (\<lambda>d. fst d = js ''.grid-area-none'')
        (gridAreaUtilities [(js ''none'', Rows [js ''auto b'']), (js ''page'', Rows [js ''none c''])]) =
      [(js ''.grid-area-none'', [(js ''grid-area'', js ''none'')])]
   \<and> map fst (gridAreasUtilities []) =
      [js ''.grid-areas-none'', js ''.grid-areas-inherit'', js ''.grid-areas-initial'',
       js ''.grid-areas-revert'', js ''.grid-areas-revert-layer'', js ''.grid-areas-unset'']
   \<and> map fst (gridAreaUtilities []) =
      [js ''.grid-area-auto'', js ''.grid-area-none'', js ''.grid-area-inherit'',
       js ''.grid-area-initial'', js ''.grid-area-revert'', js ''.grid-area-revert-layer'',
       js ''.grid-area-unset'']"
proof -
  let ?es = "[(js ''none'', Rows [js ''auto b'']), (js ''page'', Rows [js ''none c''])]"
  note w = keyword_utilities_once [of ?es]
  from w have css: "k \<in> set [js ''none'', js ''inherit'', js ''initial'', js ''revert'',
        js ''revert-layer'', js ''unset''] \<Longrightarrow>
      filter (\<lambda>d. fst d = js ''.grid-areas-'' @ k) (gridAreasUtilities ?es) =
        [(js ''.grid-areas-'' @ k, [(js ''display'', js ''grid''), (js ''grid-template-areas'', k)])]"
    for k by blast
  from w have area: "k \<in> set [js ''auto'', js ''none'', js ''inherit'', js ''initial'',
        js ''revert'', js ''revert-layer'', js ''unset''] \<Longrightarrow>
      filter (\<lambda>d. fst d = js ''.grid-area-'' @ k) (gridAreaUtilities ?es) =
        [(js ''.grid-area-'' @ k, [(js ''grid-area'', k)])]"
    for k by blast
  have a: "filter (\<lambda>d. fst d = js ''.grid-areas-none'') (gridAreasUtilities ?es) =
      [(js ''.grid-areas-none'', [(js ''display'', js ''grid''), (js ''grid-template-areas'', js ''none'')])]"
    using css [of "js ''none''"] by simp
  have b: "filter (\<lambda>d. fst d = js ''.grid-areas-revert-layer'') (gridAreasUtilities ?es) =
      [(js ''.grid-areas-revert-layer'',
        [(js ''display'', js ''grid''), (js ''grid-template-areas'', js ''revert-layer'')])]"
    using css [of "js ''revert-layer''"] by simp
  have c: "filter (\<lambda>d. fst d = js ''.grid-area-auto'') (gridAreaUtilities ?es) =
      [(js ''.grid-area-auto'', [(js ''grid-area'', js ''auto'')])]"
    using area [of "js ''auto''"] by simp
  have d: "filter (\<lambda>d. fst d = js ''.grid-area-none'') (gridAreaUtilities ?es) =
      [(js ''.grid-area-none'', [(js ''grid-area'', js ''none'')])]"
    using area [of "js ''none''"] by simp
  have e: "map fst (gridAreasUtilities []) =
      [js ''.grid-areas-none'', js ''.grid-areas-inherit'', js ''.grid-areas-initial'',
       js ''.grid-areas-revert'', js ''.grid-areas-revert-layer'', js ''.grid-areas-unset'']"
    by code_simp
  have f: "map fst (gridAreaUtilities []) =
      [js ''.grid-area-auto'', js ''.grid-area-none'', js ''.grid-area-inherit'',
       js ''.grid-area-initial'', js ''.grid-area-revert'', js ''.grid-area-revert-layer'',
       js ''.grid-area-unset'']"
    by code_simp
  from a b c d e f show ?thesis by (intro conjI)
qed

section \<open>The static path has no failure\<close>

text \<open>
  Claim C2, amended. A configuration with a layout that has an empty row string is
  processed like any other: the plugin returns normally and hands its three
  objects of utilities to the host, no error is raised, the empty row is rendered
  as the empty quoted row at its place among the rows, and the empty string
  becomes an area name.
\<close>

theorem static_path_never_fails:
  assumes "(name, config) \<in> set entries"
    and "rows (normalizeAreaConfig config) = xs @ [ [] ] @ ys"
  shows "(\<exists>reg. gridAreasPlugin entries = Inr reg
            \<and> addUtilities_calls reg =
                [gridAreasUtilities entries, gridAreaUtilities entries, lineUtilities entries])
       \<and> gridAreasPlugin entries \<noteq> Inl MalformedLayout
       \<and> formatGridTemplateAreas (rows (normalizeAreaConfig config)) =
           join (js '' '') (map quoted xs @ [ [0x22, 0x22] ] @ map quoted ys)
       \<and> [] \<in> set (allAreaNames entries)"
proof -
  have "[] \<in> set (rows (normalizeAreaConfig config))" "\<forall>c\<in>set []. isWhiteSpace c"
    using assms(2) by simp_all
  with assms(1) have "[] \<in> set (allAreaNames entries)"
    by (rule empty_name_in_allAreaNames)
  then show ?thesis
    using assms(2) by (simp add: gridAreasPlugin_def formatGridTemplateAreas_def quoted_def)
qed

text \<open>
  The amended claim at a layout whose second row is the empty string.
\<close>

theorem static_path_never_fails_witness:
  \<open>(js ''page'', Rows [js ''a'', [] ]) \<in> set [(js ''page'', Rows [js ''a'', [] ])]
   \<and> rows (normalizeAreaConfig (Rows [js ''a'', [] ])) = [js ''a''] @ [ [] ] @ []
   \<and> gridAreasPlugin [(js ''page'', Rows [js ''a'', [] ])] \<noteq> Inl MalformedLayout
   \<and> formatGridTemplateAreas [js ''a'', [] ] = js ''"a" ""''\<close>
proof -
  have h1: "(js ''page'', Rows [js ''a'', [] ]) \<in> set [(js ''page'', Rows [js ''a'', [] ])]" by simp
  have h2: "rows (normalizeAreaConfig (Rows [js ''a'', [] ])) = [js ''a''] @ [ [] ] @ []" by simp
  from static_path_never_fails [OF h1 h2] h1 h2 show ?thesis
    by (simp add: quoted_def)
qed

text \<open>
  The claim as stated fails: a layout with an empty row string does not end in
  \<open>MalformedLayout\<close>; its utility is registered with the empty quoted row.
\<close>

theorem empty_row_accepted_counterexample:
  \<open>[] \<in> set (rows (normalizeAreaConfig (Rows [js ''a'', [] ])))
   \<and> gridAreasPlugin [(js ''page'', Rows [js ''a'', [] ])] \<noteq> Inl MalformedLayout
   \<and> map_of (gridAreasUtilities [(js ''page'', Rows [js ''a'', [] ])]) (js ''.grid-areas-page'') =
       Some [(js ''display'', js ''grid''), (js ''grid-template-areas'', js ''"a" ""'')]\<close>
  by (simp add: gridAreasPlugin_def layout_styles_def formatGridTemplateAreas_def quoted_def
      gridAreasUtilities_def layout_loop_def layout_step_def CSS_KEYWORDS_def)

section \<open>The static rendering of rows\<close>

lemma normalized_no_leading_space:
  assumes "spec_normalize_row row = row" and "row \<noteq> []"
  shows "hd row \<noteq> 0x20"
proof (cases "spec_cell_tokens row")
  case Nil
  with assms show ?thesis by (simp add: spec_normalize_row_def)
next
  case (Cons t ts)
  then have "t \<in> set (spec_cell_tokens row)" by simp
  then have t: "t \<noteq> []" "t \<in> set (split_ws row)"
    by (simp_all add: spec_cell_tokens_def)
  then have "hd t \<in> set t" by simp
  with t(2) have "\<not> isWhiteSpace (hd t)" by (rule split_ws_pieces)
  moreover have "hd row = hd t"
  proof -
    from Cons have "spec_normalize_row row = t @ (if ts = [] then [] else (js '' '') @ join (js '' '') ts)"
      by (simp add: spec_normalize_row_def join_Cons)
    with assms(1) have "row = t @ (if ts = [] then [] else (js '' '') @ join (js '' '') ts)" by simp
    with t(1) show ?thesis by (metis hd_append2)
  qed
  ultimately show ?thesis by (auto simp: isWhiteSpace_def isLineTerminator_def)
qed

lemma split_quote_space_not_Nil: "spec_split_quote_space s \<noteq> []"
proof (induction s rule: spec_split_quote_space.induct)
  case (3 c d cs)
  then show ?case by (cases "spec_split_quote_space (d # cs)") auto
qed simp_all

lemma split_quote_space_Cons:
  "c \<noteq> 0x22 \<Longrightarrow> spec_split_quote_space (c # cs) = cons_head c (spec_split_quote_space cs)"
  by (cases cs) simp_all

lemma split_quote_space_quote:
  "cs \<noteq> [] \<Longrightarrow> hd cs \<noteq> 0x20 \<Longrightarrow>
   spec_split_quote_space (0x22 # cs) = cons_head (0x22) (spec_split_quote_space cs)"
  by (cases cs) simp_all

lemma split_quote_space_append:
  assumes "0x22 \<notin> set r" and "spec_split_quote_space s = t # ts"
  shows "spec_split_quote_space (r @ s) = (r @ t) # ts"
  using assms(1)
proof (induction r)
  case Nil
  show ?case by (simp add: assms(2))
next
  case (Cons c r)
  then have "c \<noteq> 0x22" and "spec_split_quote_space (r @ s) = (r @ t) # ts" by auto
  then show ?case by (simp add: split_quote_space_Cons)
qed

lemma split_quote_space_last_row:
  assumes "0x22 \<notin> set r" and "r = [] \<or> hd r \<noteq> 0x20"
  shows "spec_split_quote_space (quoted r) = [quoted r]"
proof -
  have "spec_split_quote_space (r @ [0x22]) = [r @ [0x22] ]"
    using assms(1) by (intro split_quote_space_append) simp_all
  moreover from assms(2) have "hd (r @ [0x22]) \<noteq> 0x20"
    by (cases r) auto
  ultimately show ?thesis
    by (simp add: quoted_def split_quote_space_quote)
qed

lemma split_quote_space_row:
  assumes "0x22 \<notin> set r" and "r = [] \<or> hd r \<noteq> 0x20"
  shows "spec_split_quote_space (quoted r @ 0x20 # s) =
           (0x22 # r) # spec_split_quote_space s"
proof -
  have "spec_split_quote_space (0x22 # 0x20 # s) = [] # spec_split_quote_space s"
    by simp
  with assms(1)
  have "spec_split_quote_space (r @ 0x22 # 0x20 # s) =
          (r @ []) # spec_split_quote_space s"
    by (rule split_quote_space_append)
  moreover from assms(2) have "hd (r @ 0x22 # 0x20 # s) \<noteq> 0x20"
    by (cases r) auto
  ultimately show ?thesis
    by (simp add: quoted_def split_quote_space_quote)
qed

lemma decode_format_rows:
  assumes "rs \<noteq> []"
    and "\<forall>row\<in>set rs. 0x22 \<notin> set row \<and> (row = [] \<or> hd row \<noteq> 0x20)"
  shows "spec_decode_rows (formatGridTemplateAreas rs) = rs"
  using assms
proof (induction rs)
  case Nil
  then show ?case by simp
next
  case (Cons r rs)
  from Cons.prems(2) have r: "0x22 \<notin> set r" "r = [] \<or> hd r \<noteq> 0x20"
    by simp_all
  then have strip: "filter (\<lambda>c. c \<noteq> 0x22) r = r"
    by (auto simp: filter_id_conv)
  show ?case
  proof (cases rs)
    case Nil
    with r strip show ?thesis
      by (simp add: spec_decode_rows_def formatGridTemplateAreas_def
          split_quote_space_last_row) (simp add: quoted_def)
  next
    case tl: (Cons r' rs')
    with Cons.IH Cons.prems(2)
    have "spec_decode_rows (formatGridTemplateAreas rs) = rs" by simp
    moreover from tl have "formatGridTemplateAreas (r # rs) =
        quoted r @ js '' '' @ formatGridTemplateAreas rs"
      by (simp add: formatGridTemplateAreas_def)
    ultimately show ?thesis using r strip
      by (simp add: spec_decode_rows_def split_quote_space_row)
  qed
qed

text \<open>
  Claim C1, amended. The static path puts every row string, as it is, between
  double quotes and joins the quoted rows with single spaces in row order; it does
  not split or normalise a row. When every row is already normalised (it equals its
  cell tokens joined with single spaces), the output is the rendering that the
  specification describes; and when in addition there is at least one row and no
  row contains a double quote, splitting the output at the quote-space boundaries
  and stripping the quotes gives the normalised rows back.
\<close>

theorem formatGridTemplateAreas_normalized_rows:
  "formatGridTemplateAreas rs = join (js '' '') (map (\<lambda>row. [0x22] @ row @ [0x22]) rs)
   \<and> ((\<forall>row\<in>set rs. spec_normalize_row row = row) \<longrightarrow>
        formatGridTemplateAreas rs = spec_format_rows rs)
   \<and> (rs \<noteq> [] \<and> (\<forall>row\<in>set rs. spec_normalize_row row = row \<and> 0x22 \<notin> set row) \<longrightarrow>
        spec_decode_rows (formatGridTemplateAreas rs) = map spec_normalize_row rs)"
proof (intro conjI impI)
  have "quoted = (\<lambda>row. [0x22] @ row @ [0x22])"
    by (rule ext) (simp add: quoted_def)
  then show "formatGridTemplateAreas rs =
      join (js '' '') (map (\<lambda>row. [0x22] @ row @ [0x22]) rs)"
    by (simp only: formatGridTemplateAreas_def)
next
  assume "\<forall>row\<in>set rs. spec_normalize_row row = row"
  then have "map (\<lambda>row. quoted (spec_normalize_row row)) rs = map quoted rs"
    by (intro map_cong) simp_all
  then show "formatGridTemplateAreas rs = spec_format_rows rs"
    by (simp only: formatGridTemplateAreas_def spec_format_rows_def)
next
  assume a: "rs \<noteq> [] \<and> (\<forall>row\<in>set rs. spec_normalize_row row = row \<and> 0x22 \<notin> set row)"
  then have "\<forall>row\<in>set rs. 0x22 \<notin> set row \<and> (row = [] \<or> hd row \<noteq> 0x20)"
    using normalized_no_leading_space by blast
  with a have "spec_decode_rows (formatGridTemplateAreas rs) = rs"
    by (intro decode_format_rows) simp_all
  moreover from a have "map spec_normalize_row rs = rs"
    by (simp add: map_idI)
  ultimately show "spec_decode_rows (formatGridTemplateAreas rs) = map spec_normalize_row rs"
    by simp
qed

text \<open>
  The amended claim at three normalised rows.
\<close>

theorem formatGridTemplateAreas_normalized_rows_witness:
  \<open>list_all (\<lambda>row. spec_normalize_row row = row) [js ''header header'', js ''sidebar main'', js ''. footer'']
   \<and> list_all (\<lambda>row. 0x22 \<notin> set row) [js ''header header'', js ''sidebar main'', js ''. footer'']
   \<and> formatGridTemplateAreas [js ''header header'', js ''sidebar main'', js ''. footer''] =
       (js ''"header header" "sidebar main" ". footer"'')
   \<and> spec_format_rows [js ''header header'', js ''sidebar main'', js ''. footer''] =
       (js ''"header header" "sidebar main" ". footer"'')
   \<and> spec_decode_rows (js ''"header header" "sidebar main" ". footer"'') =
       [js ''header header'', js ''sidebar main'', js ''. footer'']\<close>
proof -
  let ?rs = "[js ''header header'', js ''sidebar main'', js ''. footer'']"
  have n: "spec_normalize_row (js ''header header'') = js ''header header''"
      "spec_normalize_row (js ''sidebar main'') = js ''sidebar main''"
      "spec_normalize_row (js ''. footer'') = js ''. footer''"
    by (simp_all add: spec_normalize_row_def spec_cell_tokens_def split_ws.simps isWhiteSpace_def isLineTerminator_def)
  then have h: "\<forall>row\<in>set ?rs. spec_normalize_row row = row" by simp
  have q: "?rs \<noteq> [] \<and> (\<forall>row\<in>set ?rs. spec_normalize_row row = row \<and> 0x22 \<notin> set row)"
    using n by simp
  note w = formatGridTemplateAreas_normalized_rows [of ?rs]
  from w have f: \<open>formatGridTemplateAreas ?rs = js ''"header header" "sidebar main" ". footer"''\<close>
    by simp
  from w h have "formatGridTemplateAreas ?rs = spec_format_rows ?rs" by blast
  with f have s: \<open>spec_format_rows ?rs = js ''"header header" "sidebar main" ". footer"''\<close>
    by (simp only:)
  from w q have "spec_decode_rows (formatGridTemplateAreas ?rs) = map spec_normalize_row ?rs"
    by blast
  then have d: \<open>spec_decode_rows (js ''"header header" "sidebar main" ". footer"'') = ?rs\<close>
    by (simp only: f list.map n)
  have l: "list_all (\<lambda>row. spec_normalize_row row = row) ?rs"
    using n by simp
  have l2: "list_all (\<lambda>row. 0x22 \<notin> set row) ?rs" by simp
  from l l2 f s d show ?thesis by (intro conjI)
qed

text \<open>
  The claim as stated fails for a row with two spaces between its tokens: the
  source keeps both spaces, the specification's rendering has one.
\<close>

theorem formatGridTemplateAreas_verbatim_counterexample:
  \<open>formatGridTemplateAreas [js ''a  b''] = js ''"a  b"''
   \<and> spec_format_rows [js ''a  b''] = js ''"a b"''
   \<and> formatGridTemplateAreas [js ''a  b''] \<noteq> spec_format_rows [js ''a  b'']
   \<and> spec_decode_rows (formatGridTemplateAreas [js ''a  b'']) = [js ''a  b'']
   \<and> spec_decode_rows (formatGridTemplateAreas [js ''a  b'']) \<noteq> map spec_normalize_row [js ''a  b'']\<close>
  by code_simp

section \<open>The arbitrary-value parser\<close>






text \<open>
  Claim C4, amended. A string that itself, without trimming, is \<^verbatim>\<open>var(\<close>, then any
  characters other than line terminators, then \<^verbatim>\<open>)\<close>, matches the whole-value
  pattern, and the parser returns it unchanged.
\<close>

theorem parse_whole_var_unchanged:
  assumes "v = js ''var('' @ x @ js '')''" and "\<forall>c\<in>set x. \<not> isLineTerminator c"
  shows "matches_whole_var v \<and> parseArbitraryGridAreas v = v"
proof -
  from assms have "matches_whole_var v"
    using matches_whole_var_iff [of v] by blast
  then show ?thesis by (simp add: parseArbitraryGridAreas_def)
qed

text \<open>
  The amended claim at \<^verbatim>\<open>var(--my-areas)\<close>.
\<close>

theorem parse_whole_var_unchanged_witness:
  "js ''var(--my-areas)'' = js ''var('' @ js ''--my-areas'' @ js '')''
   \<and> list_all (\<lambda>c. \<not> isLineTerminator c) (js ''--my-areas'')
   \<and> parseArbitraryGridAreas (js ''var(--my-areas)'') = js ''var(--my-areas)''"
proof -
  have h1: "js ''var(--my-areas)'' = js ''var('' @ js ''--my-areas'' @ js '')''" by simp
  have h2: "\<forall>c\<in>set (js ''--my-areas''). \<not> isLineTerminator c"
    by (simp add: isLineTerminator_def)
  from parse_whole_var_unchanged [OF h1 h2]
  have "parseArbitraryGridAreas (js ''var(--my-areas)'') = js ''var(--my-areas)''"
    by (rule conjunct2)
  moreover from h2 have "list_all (\<lambda>c. \<not> isLineTerminator c) (js ''--my-areas'')"
    by (simp only: list_all_iff)
  ultimately show ?thesis using h1 by (intro conjI)
qed

text \<open>
  The claim as stated fails: the source tests the string as it is, not its trimmed
  form. With a leading space the trimmed form matches the pattern, and the parser
  returns the trimmed string, which is not its input.
\<close>

theorem parse_trimmed_var_counterexample:
  "matches_whole_var (trim (js '' var(--x)''))
   \<and> parseArbitraryGridAreas (js '' var(--x)'') = js ''var(--x)''
   \<and> parseArbitraryGridAreas (js '' var(--x)'') \<noteq> js '' var(--x)''"
  by code_simp

text \<open>
  Claim C9, amended. A string that begins with \<^verbatim>\<open>var(\<close>, ends with \<^verbatim>\<open>)\<close> and
  contains none of the four line terminators (LF, CR, U+2028 and U+2029) is
  returned unchanged, whatever else it contains, commas and closing parentheses
  included.
\<close>

theorem parse_var_with_commas_unchanged:
  assumes "prefix (js ''var('') v" and "suffix (js '')'') v"
    and "\<forall>c\<in>set v. \<not> isLineTerminator c"
  shows "parseArbitraryGridAreas v = v"
proof -
  from assms(1) obtain r where r: "v = js ''var('' @ r" by (auto elim: prefixE)
  from assms(2) obtain p where p: "v = p @ js '')''" by (auto elim: suffixE)
  have ne: "r \<noteq> []"
  proof
    assume "r = []"
    with r p have "last (p @ js '')'') = last (js ''var('')" by simp
    then show False by simp
  qed
  then have "last v = last r" using r by simp
  moreover from p have "last v = 0x29" by simp
  ultimately have "last r = 0x29" by simp
  with ne have "butlast r @ js '')'' = r"
    using append_butlast_last_id [of r] by simp
  with r have "v = js ''var('' @ butlast r @ js '')''" by simp
  moreover have "\<forall>c\<in>set (butlast r). \<not> isLineTerminator c"
    using assms(3) r by (auto dest: in_set_butlastD)
  ultimately have "matches_whole_var v" using matches_whole_var_iff [of v] by blast
  then show ?thesis by (simp add: parseArbitraryGridAreas_def)
qed

text \<open>
  The amended claim at \<^verbatim>\<open>var(--a),var(--b)\<close>, which is not split at its comma.
\<close>

theorem parse_var_with_commas_unchanged_witness:
  "prefix (js ''var('') (js ''var(--a),var(--b)'') \<and> suffix (js '')'') (js ''var(--a),var(--b)'')
   \<and> list_all (\<lambda>c. \<not> isLineTerminator c) (js ''var(--a),var(--b)'')
   \<and> parseArbitraryGridAreas (js ''var(--a),var(--b)'') = js ''var(--a),var(--b)''"
proof -
  have h1: "prefix (js ''var('') (js ''var(--a),var(--b)'')" by simp
  have h2: "suffix (js '')'') (js ''var(--a),var(--b)'')" by (simp add: suffix_to_prefix)
  have h3: "\<forall>c\<in>set (js ''var(--a),var(--b)''). \<not> isLineTerminator c"
    by (simp add: isLineTerminator_def)
  from h3 have "list_all (\<lambda>c. \<not> isLineTerminator c) (js ''var(--a),var(--b)'')"
    by (simp only: list_all_iff)
  with h1 h2 parse_var_with_commas_unchanged [OF h1 h2 h3] show ?thesis by (intro conjI)
qed

text \<open>
  The claim as stated fails for a string with a line feed between \<^verbatim>\<open>var(\<close> and
  \<^verbatim>\<open>)\<close>: the dot of the pattern does not match the line feed, and the string is
  emitted between double quotes. The same holds with U+2028 in its place.
\<close>

theorem parse_var_line_terminator_counterexample:
  \<open>prefix (js ''var('') (js ''var(\<newline>)'') \<and> suffix (js '')'') (js ''var(\<newline>)'')
   \<and> parseArbitraryGridAreas (js ''var(\<newline>)'') = js ''"var(\<newline>)"''
   \<and> parseArbitraryGridAreas (js ''var(\<newline>)'') \<noteq> js ''var(\<newline>)''
   \<and> parseArbitraryGridAreas (js ''var('' @ [0x2028] @ js '')'') =
       [0x22] @ js ''var('' @ [0x2028] @ js '')'' @ [0x22]\<close>
proof -
  have \<open>parseArbitraryGridAreas (js ''var(\<newline>)'') = js ''"var(\<newline>)"''
   \<and> parseArbitraryGridAreas (js ''var(\<newline>)'') \<noteq> js ''var(\<newline>)''
   \<and> parseArbitraryGridAreas (js ''var('' @ [0x2028] @ js '')'') =
       [0x22] @ js ''var('' @ [0x2028] @ js '')'' @ [0x22]\<close>
    by code_simp
  moreover have "prefix (js ''var('') (js ''var(\<newline>)'')" by simp
  moreover have "suffix (js '')'') (js ''var(\<newline>)'')" by (simp add: suffix_to_prefix)
  ultimately show ?thesis by (intro conjI) simp_all
qed

end
